theory Spec2Isabelle
  imports Complex_Main
begin

section \<open>Data model of \<open>LinearProgram.h\<close>\<close>

text \<open>
  The enumerations of namespace \<open>lp\<close>. Constructor names are capitalised; the order is
  the source's.
\<close>

datatype status_t = Optimal | Infeasible | Unbounded | InfeasibleOrUnbounded | Error

datatype method_t = SimplexPrimal | SimplexDual | SimplexDualp | Interior

datatype msg_level_t = MsgOff | MsgErr | MsgOn | MsgAll

text \<open>
  Every \<open>throw std::runtime_error(...)\<close> of the class is one constructor, named after its
  message. \<open>IndexOutOfBounds\<close> and \<open>IncompatibleDimensions\<close> are the
  \<open>std::logic_error\<close>s that Armadillo's bounds-checked element access \<open>v(i)\<close>, its
  \<open>subvec\<close> and its submatrix assignment raise in a default build; \<open>AssertionFailed\<close> is
  a failed \<open>assert\<close>.
\<close>

datatype exn =
    InvalidSize
  | InvalidConstraint
  | NotSupported
  | NoSolution
  | TransformAlreadySet
  | NotAvailableForRat
  | IndexOutOfBounds
  | IncompatibleDimensions
  | AssertionFailed

text \<open>
  \<open>MatrixEntry<eT>(row, col, val)\<close>: one triple of the coefficient list. The selectors
  carry a prefix because \<open>row\<close>, \<open>col\<close> and \<open>val\<close> are wanted as variable names.
\<close>

record 'a MatrixEntry =
  me_row :: nat
  me_col :: nat
  me_val :: 'a

text \<open>
  An Armadillo matrix: its dimensions and its rows. Element \<open>(i, j)\<close> is \<open>m_at M i j\<close>;
  only elements inside the dimensions are ever read.
\<close>

record 'a Mat =
  n_rows :: nat
  n_cols :: nat
  mem :: "'a list list"

definition m_at :: "'a Mat \<Rightarrow> nat \<Rightarrow> nat \<Rightarrow> 'a" where
  "m_at M i j = mem M ! i ! j"

text \<open>
  The class \<open>LinearProgram<eT>\<close>. The public Armadillo members \<open>A\<close>, \<open>x\<close>, \<open>b\<close>, \<open>c\<close>,
  \<open>sense\<close> and the member \<open>method\<close> carry the prefix \<open>lp_\<close>; the other members keep
  their names. Vectors are lists; \<open>Var\<close> and \<open>Con\<close> indices and the counters are natural
  numbers (the 32-bit wrap-around of counts beyond \<open>2^32\<close> is not modelled). The first
  component of a \<open>var_transform\<close> tuple is the source's \<open>int\<close>, where \<open>-1\<close> means that
  there is no substitute variable.
\<close>

record 'a LinearProgram =
  lp_A :: "'a Mat"
  lp_x :: "'a list"
  lp_b :: "'a list"
  lp_c :: "'a list"
  lp_sense :: "char list"
  maximize :: bool
  non_negative :: bool
  lp_method :: method_t
  glp_presolve :: bool
  status :: status_t
  glp_msg_level :: msg_level_t
  obj_coeff :: "'a list"
  con_coeff :: "'a MatrixEntry list"
  var_lb :: "'a list"
  var_ub :: "'a list"
  con_lb :: "'a list"
  con_ub :: "'a list"
  n_var :: nat
  n_con :: nat
  var_transform :: "(int \<times> 'a \<times> 'a) list"

text \<open>
  The value \<open>infinity<eT>()\<close> is declared outside the files at hand, so every function
  that uses it takes it as its first argument \<open>infty\<close>.

  The class invariant that the member functions maintain and that the unchecked
  \<open>std::vector\<close> accesses rely on: the bound and cost vectors are as long as the
  counters say, and every coefficient entry names an existing constraint and variable.
\<close>

definition wf_lp :: "'a LinearProgram \<Rightarrow> bool" where
  "wf_lp lp \<longleftrightarrow>
     length (var_lb lp) = n_var lp \<and> length (var_ub lp) = n_var lp \<and>
     length (obj_coeff lp) = n_var lp \<and>
     length (con_lb lp) = n_con lp \<and> length (con_ub lp) = n_con lp \<and>
     list_all (\<lambda>me. me_row me < n_con lp \<and> me_col me < n_var lp) (con_coeff lp)"

section \<open>Building a model\<close>

text \<open>\<open>make_var\<close>: push the bounds and a zero cost, return the old counter.\<close>

definition make_var :: "'a::zero \<Rightarrow> 'a \<Rightarrow> 'a LinearProgram \<Rightarrow> nat \<times> 'a LinearProgram" where
  "make_var lb ub lp =
     (n_var lp,
      lp\<lparr>var_lb := var_lb lp @ [lb], var_ub := var_ub lp @ [ub],
         obj_coeff := obj_coeff lp @ [0], n_var := Suc (n_var lp)\<rparr>)"

text \<open>
  \<open>make_con\<close>: the guard \<open>ub == infinity<eT>() && lb == -ub\<close> throws before anything is
  written; otherwise the bounds are pushed and the old counter is returned. The result
  is the pair of the outcome and the object after the call.
\<close>

definition make_con ::
  "'a::uminus \<Rightarrow> 'a \<Rightarrow> 'a \<Rightarrow> 'a LinearProgram \<Rightarrow> (exn + nat) \<times> 'a LinearProgram" where
  "make_con infty lb ub lp =
     (if ub = infty \<and> lb = - ub then (Inl InvalidConstraint, lp)
      else (Inr (n_con lp),
            lp\<lparr>con_lb := con_lb lp @ [lb], con_ub := con_ub lp @ [ub],
               n_con := Suc (n_con lp)\<rparr>))"

text \<open>\<open>set_obj_coeff\<close>: \<open>obj_coeff[var] += coeff\<close> or \<open>obj_coeff[var] = coeff\<close>.\<close>

definition set_obj_coeff :: "nat \<Rightarrow> 'a::plus \<Rightarrow> bool \<Rightarrow> 'a LinearProgram \<Rightarrow> 'a LinearProgram" where
  "set_obj_coeff var coeff add lp =
     (if add then lp\<lparr>obj_coeff := (obj_coeff lp)[var := obj_coeff lp ! var + coeff]\<rparr>
      else lp\<lparr>obj_coeff := (obj_coeff lp)[var := coeff]\<rparr>)"

text \<open>
  The scan of \<open>set_con_coeff\<close> under \<open>add\<close>: the first entry of the pair \<open>(con, var)\<close>
  gets \<open>val += coeff\<close> and the function returns; \<open>None\<close> when the scan finds no entry.
\<close>

fun add_to_first :: "nat \<Rightarrow> nat \<Rightarrow> 'a::plus \<Rightarrow> 'a MatrixEntry list \<Rightarrow> 'a MatrixEntry list option" where
  "add_to_first con var coeff [] = None"
| "add_to_first con var coeff (me # mes) =
     (if me_row me = con \<and> me_col me = var
      then Some (me\<lparr>me_val := me_val me + coeff\<rparr> # mes)
      else map_option ((#) me) (add_to_first con var coeff mes))"

definition set_con_coeff ::
  "nat \<Rightarrow> nat \<Rightarrow> 'a::plus \<Rightarrow> bool \<Rightarrow> 'a LinearProgram \<Rightarrow> 'a LinearProgram" where
  "set_con_coeff con var coeff add lp =
     (case (if add then add_to_first con var coeff (con_coeff lp) else None) of
        Some mes \<Rightarrow> lp\<lparr>con_coeff := mes\<rparr>
      | None \<Rightarrow>
          lp\<lparr>con_coeff := con_coeff lp @ [\<lparr>me_row = con, me_col = var, me_val = coeff\<rparr>]\<rparr>)"

text \<open>\<open>get_sense\<close>: the sense of row \<open>i\<close>, \<open><\<close> when none is stored.\<close>

definition get_sense :: "'a LinearProgram \<Rightarrow> nat \<Rightarrow> char" where
  "get_sense lp i = (if i < length (lp_sense lp) then lp_sense lp ! i else CHR ''<'')"

definition check_sizes :: "'a LinearProgram \<Rightarrow> exn + unit" where
  "check_sizes lp =
     (if n_rows (lp_A lp) \<noteq> length (lp_b lp) \<or> n_cols (lp_A lp) \<noteq> length (lp_c lp)
      then Inl InvalidSize else Inr ())"

text \<open>
  The iteration \<open>A.begin() .. A.end()\<close> over a sparse matrix visits the nonzero elements
  column by column.
\<close>

definition nonzeros :: "'a::zero Mat \<Rightarrow> (nat \<times> nat \<times> 'a) list" where
  "nonzeros M =
     concat (map (\<lambda>j. concat (map (\<lambda>i. if m_at M i j \<noteq> 0 then [(i, j, m_at M i j)] else [])
                                  [0..<n_rows M]))
                 [0..<n_cols M])"

text \<open>
  \<open>compat_build_matrix\<close>: when no variable was made through \<open>make_var\<close>, the vectors
  and both counters are rebuilt from \<open>A\<close>, \<open>b\<close>, \<open>c\<close> and \<open>sense\<close>. \<open>b[con]\<close> and
  \<open>c[var]\<close> are unchecked reads, in range after \<open>check_sizes\<close>.
\<close>

definition compat_build_matrix :: "'a::{zero,uminus,plus} \<Rightarrow> 'a LinearProgram \<Rightarrow> 'a LinearProgram" where
  "compat_build_matrix infty lp =
     (if n_var lp = 0 then
        (let lp1 = lp\<lparr>obj_coeff := [], con_coeff := [], var_lb := [], var_ub := [],
                      con_lb := [], con_ub := []\<rparr>;
             lp2 = lp1\<lparr>n_var := length (lp_c lp1), n_con := n_rows (lp_A lp1)\<rparr>;
             lp3 = lp2\<lparr>var_lb := replicate (n_var lp2) (if non_negative lp2 then 0 else - infty),
                        var_ub := replicate (n_var lp2) infty\<rparr>;
             lp4 = lp3\<lparr>con_lb := map (\<lambda>con. if get_sense lp3 con = CHR ''<'' then - infty
                                             else lp_b lp3 ! con) [0..<n_con lp3],
                        con_ub := map (\<lambda>con. if get_sense lp3 con = CHR ''>'' then infty
                                             else lp_b lp3 ! con) [0..<n_con lp3]\<rparr>;
             lp5 = lp4\<lparr>obj_coeff := map (\<lambda>var. lp_c lp4 ! var) [0..<n_var lp4]\<rparr>
         in fold (\<lambda>(i, j, v). set_con_coeff i j v False) (nonzeros (lp_A lp5)) lp5)
      else lp)"

section \<open>The canonical form, on the coefficient lists\<close>

text \<open>
  The two branches \<open>if(con_lb[me.row] != -inf) ... else if(con_ub[me.row] != inf) ...\<close>
  that move the finite bound of row \<open>r\<close> by \<open>d\<close>.
\<close>

definition shift_bound :: "'a::linordered_field \<Rightarrow> nat \<Rightarrow> 'a \<Rightarrow> 'a LinearProgram \<Rightarrow> 'a LinearProgram" where
  "shift_bound infty r d lp =
     (if con_lb lp ! r \<noteq> - infty then lp\<lparr>con_lb := (con_lb lp)[r := con_lb lp ! r + d]\<rparr>
      else if con_ub lp ! r \<noteq> infty then lp\<lparr>con_ub := (con_ub lp)[r := con_ub lp ! r + d]\<rparr>
      else lp)"

text \<open>
  \<open>for(auto me : con_coeff) body\<close>, for a body that may append to the list: the walk
  goes on to the entries just appended, so the loop is modelled by position, and
  \<open>None\<close> stands for a walk that never ends. \<open>me\<close> is a copy of the entry.
\<close>

partial_function (option) walk_coeffs ::
  "('a MatrixEntry \<Rightarrow> 'a LinearProgram \<Rightarrow> 'a LinearProgram) \<Rightarrow> nat \<Rightarrow> 'a LinearProgram
     \<Rightarrow> 'a LinearProgram option" where
  "walk_coeffs body i s =
     (if i < length (con_coeff s) then walk_coeffs body (Suc i) (body (con_coeff s ! i) s)
      else Some s)"

declare walk_coeffs.simps [code]

text \<open>
  First branch: a free variable becomes the difference of two variables, and
  \<open>for(auto me : con_coeff) if(me.col == x) set_con_coeff(me.row, xnew, -me.val);\<close>
  mirrors its coefficients.
\<close>

definition split_free :: "'a::linordered_field \<Rightarrow> nat \<Rightarrow> 'a LinearProgram \<Rightarrow> 'a LinearProgram option" where
  "split_free infty x lp =
     (let (xnew, lp1) = make_var 0 infty lp;
          lp2 = lp1\<lparr>var_transform := var_transform lp1 @ [(int xnew, 1, 0)]\<rparr>;
          lp3 = set_obj_coeff xnew (- (obj_coeff lp2 ! x)) False lp2
      in walk_coeffs (\<lambda>me s. if me_col me = x
                              then set_con_coeff (me_row me) xnew (- me_val me) False s else s)
           0 lp3)"

text \<open>
  Second branch, entered on \<open>lb == inf\<close>. The statement \<open>me.val *= -1\<close> stands after the
  \<open>if(me.col == x)\<close> block, so it applies to every entry of the list.
\<close>

definition subst_upper :: "'a::linordered_field \<Rightarrow> nat \<Rightarrow> 'a \<Rightarrow> 'a LinearProgram \<Rightarrow> 'a LinearProgram" where
  "subst_upper infty x ub lp =
     (let lp1 = lp\<lparr>var_transform := var_transform lp @ [(- 1, - 1, ub)]\<rparr>;
          lp2 = lp1\<lparr>obj_coeff := (obj_coeff lp1)[x := obj_coeff lp1 ! x * - 1]\<rparr>;
          lp3 = fold (\<lambda>me s. if me_col me = x
                              then shift_bound infty (me_row me) (me_val me * - ub) s else s)
                     (con_coeff lp2) lp2
      in lp3\<lparr>con_coeff := map (\<lambda>me. me\<lparr>me_val := me_val me * - 1\<rparr>) (con_coeff lp3)\<rparr>)"

text \<open>Third branch: shift by the lower bound, and a new row when \<open>ub\<close> is not infinity.\<close>

definition shift_lower ::
  "'a::linordered_field \<Rightarrow> nat \<Rightarrow> 'a \<Rightarrow> 'a \<Rightarrow> 'a LinearProgram \<Rightarrow> (exn + unit) \<times> 'a LinearProgram" where
  "shift_lower infty x lb ub lp =
     (let lp1 = lp\<lparr>var_transform := var_transform lp @ [(- 1, 1, - lb)]\<rparr>;
          lp2 = fold (\<lambda>me s. if me_col me = x
                              then shift_bound infty (me_row me) (me_val me * lb) s else s)
                     (con_coeff lp1) lp1
      in if ub \<noteq> infty
         then (case make_con infty (- infty) (lb + ub) lp2 of
                 (Inl e, lp3) \<Rightarrow> (Inl e, lp3)
               | (Inr con, lp3) \<Rightarrow> (Inr (), set_con_coeff con x 1 False lp3))
         else (Inr (), lp2))"

text \<open>The body of the loop over the variables.\<close>

definition bound_step ::
  "'a::linordered_field \<Rightarrow> nat \<Rightarrow> 'a LinearProgram \<Rightarrow> ((exn + unit) \<times> 'a LinearProgram) option" where
  "bound_step infty x lp =
     (let lb = var_lb lp ! x;
          ub = var_ub lp ! x;
          lp1 = lp\<lparr>var_lb := (var_lb lp)[x := 0], var_ub := (var_ub lp)[x := infty]\<rparr>
      in if lb = - infty \<and> ub = infty
         then map_option (Pair (Inr ())) (split_free infty x lp1)
         else if lb = infty then Some (Inr (), subst_upper infty x ub lp1)
         else Some (shift_lower infty x lb ub lp1))"

fun bounds_loop ::
  "'a::linordered_field \<Rightarrow> nat list \<Rightarrow> 'a LinearProgram \<Rightarrow> ((exn + unit) \<times> 'a LinearProgram) option" where
  "bounds_loop infty [] lp = Some (Inr (), lp)"
| "bounds_loop infty (x # xs) lp =
     (case bound_step infty x lp of
        None \<Rightarrow> None
      | Some (Inl e, lp') \<Rightarrow> Some (Inl e, lp')
      | Some (Inr u, lp') \<Rightarrow> bounds_loop infty xs lp')"

text \<open>
  The loop that splits two-sided rows. Its bound \<open>n_con\<close> is the member, read again at
  every round, so the rows made by the loop are visited too. The inner loop is
  \<open>for(auto me : con_coeff) if(me.row == c) set_con_coeff(newc, me.col, me.val);\<close>
\<close>

partial_function (option) split_loop ::
  "'a::linordered_field \<Rightarrow> nat \<Rightarrow> 'a LinearProgram \<Rightarrow> ((exn + unit) \<times> 'a LinearProgram) option" where
  "split_loop infty c s =
     (if c < n_con s
      then (let lb = con_lb s ! c; ub = con_ub s ! c in
            if lb \<noteq> - infty \<and> ub \<noteq> infty \<and> lb \<noteq> ub
            then (case make_con infty (- infty) ub (s\<lparr>con_ub := (con_ub s)[c := infty]\<rparr>) of
                    (Inl e, s1) \<Rightarrow> Some (Inl e, s1)
                  | (Inr newc, s1) \<Rightarrow>
                      (case walk_coeffs (\<lambda>me t. if me_row me = c
                                                  then set_con_coeff newc (me_col me) (me_val me) False t
                                                  else t) 0 s1 of
                         None \<Rightarrow> None
                       | Some s2 \<Rightarrow> split_loop infty (Suc c) s2))
            else split_loop infty (Suc c) s)
      else Some (Inr (), s))"

declare split_loop.simps [code]

text \<open>The slack and surplus variables.\<close>

definition slack_step :: "'a::linordered_field \<Rightarrow> nat \<Rightarrow> 'a LinearProgram \<Rightarrow> 'a LinearProgram" where
  "slack_step infty c lp =
     (let lb = con_lb lp ! c; ub = con_ub lp ! c in
      if lb = - infty
      then (let (xnew, lp2) = make_var 0 infty (lp\<lparr>con_lb := (con_lb lp)[c := ub]\<rparr>)
            in set_con_coeff c xnew 1 False lp2)
      else if ub = infty
      then (let (xnew, lp2) = make_var 0 infty (lp\<lparr>con_ub := (con_ub lp)[c := lb]\<rparr>)
            in set_con_coeff c xnew (- 1) False lp2)
      else lp)"

text \<open>Rows with a negative constant change sign.\<close>

definition flip_step :: "nat \<Rightarrow> 'a::linordered_field LinearProgram \<Rightarrow> 'a LinearProgram" where
  "flip_step c lp =
     (if con_ub lp ! c < 0
      then lp\<lparr>con_lb := (con_lb lp)[c := con_lb lp ! c * - 1],
              con_ub := (con_ub lp)[c := con_ub lp ! c * - 1],
              con_coeff := map (\<lambda>me. if me_row me = c then me\<lparr>me_val := me_val me * - 1\<rparr> else me)
                               (con_coeff lp)\<rparr>
      else lp)"

definition to_minimize :: "'a::linordered_field LinearProgram \<Rightarrow> 'a LinearProgram" where
  "to_minimize lp =
     (if maximize lp
      then lp\<lparr>maximize := False, obj_coeff := map (\<lambda>c. c * - 1) (obj_coeff lp)\<rparr>
      else lp)"

text \<open>
  \<open>to_canonical_form\<close>. The loops over the constraints that add slack variables and
  flip signs leave \<open>n_con\<close> alone, so they run over the indices below its value at
  their start. An exception leaves the object as far as it was rewritten.
\<close>

definition to_canonical_form ::
  "'a::linordered_field \<Rightarrow> 'a LinearProgram \<Rightarrow> ((exn + unit) \<times> 'a LinearProgram) option" where
  "to_canonical_form infty lp =
     (let n_var_orig = n_var lp in
      if length (var_transform lp) \<noteq> 0 then Some (Inl TransformAlreadySet, lp)
      else (case bounds_loop infty [0..<n_var_orig] lp of
              None \<Rightarrow> None
            | Some (Inl e, lp1) \<Rightarrow> Some (Inl e, lp1)
            | Some (Inr u, lp1) \<Rightarrow>
                (case split_loop infty 0 lp1 of
                   None \<Rightarrow> None
                 | Some (Inl e, lp2) \<Rightarrow> Some (Inl e, lp2)
                 | Some (Inr u, lp2) \<Rightarrow>
                     (let lp3 = fold (slack_step infty) [0..<n_con lp2] lp2;
                          lp4 = fold flip_step [0..<n_con lp3] lp3
                      in Some (Inr (), to_minimize lp4)))))"

section \<open>The two-phase revised simplex\<close>

text \<open>
  Modelled from the spec: \<open>less_than\<close> is declared outside the files at hand; the spec
  has the comparisons of the exact simplex strict and exact, with no tolerance.
\<close>

definition less_than :: "'a::linorder \<Rightarrow> 'a \<Rightarrow> bool" where
  "less_than a b \<longleftrightarrow> a < b"

text \<open>
  Dense matrices are lists of rows. \<open>dot\<close>, a column, row vector times matrix and matrix
  times column vector, as Armadillo computes them for the shapes that occur.
\<close>

definition dot :: "'a::semiring_0 list \<Rightarrow> 'a list \<Rightarrow> 'a" where
  "dot u v = sum_list (map2 (*) u v)"

definition col :: "'a list list \<Rightarrow> nat \<Rightarrow> 'a list" where
  "col M j = map (\<lambda>r. r ! j) M"

definition vec_mat :: "'a::semiring_0 list \<Rightarrow> 'a list list \<Rightarrow> nat \<Rightarrow> 'a list" where
  "vec_mat v M k = map (\<lambda>j. dot v (col M j)) [0..<k]"

definition mat_vec :: "'a::semiring_0 list list \<Rightarrow> 'a list \<Rightarrow> 'a list" where
  "mat_vec M v = map (\<lambda>r. dot r v) M"

definition zeros :: "nat \<Rightarrow> nat \<Rightarrow> 'a::zero list list" where
  "zeros m n = replicate m (replicate n 0)"

definition eye :: "nat \<Rightarrow> 'a::{zero,one} list list" where
  "eye m = map (\<lambda>i. map (\<lambda>j. if i = j then 1 else 0) [0..<m]) [0..<m]"

text \<open>
  \<open>for(auto me : con_coeff) Adense(me.row, me.col) = me.val;\<close> with Armadillo's checked
  access: a later entry of a pair overwrites an earlier one.
\<close>

fun build_dense :: "nat \<Rightarrow> nat \<Rightarrow> 'a MatrixEntry list \<Rightarrow> 'a list list \<Rightarrow> exn + 'a list list" where
  "build_dense m n [] M = Inr M"
| "build_dense m n (me # mes) M =
     (if me_row me < m \<and> me_col me < n
      then build_dense m n mes (M[me_row me := (M ! me_row me)[me_col me := me_val me]])
      else Inl IndexOutOfBounds)"

text \<open>
  The working variables of the loop. \<open>is_basic\<close> holds the source's characters 0 and 1
  as booleans; \<open>sx\<close> is the member \<open>x\<close>, which the solver uses as its working vector.
\<close>

record 'a simplex_state =
  is_basic :: "bool list"
  basic :: "nat list"
  Binv :: "'a list list"
  cB :: "'a list"
  sx :: "'a list"
  phase_one :: bool

text \<open>The reduced cost of column \<open>j\<close>, as the pricing loop computes it.\<close>

definition reduced_cost :: "bool \<Rightarrow> 'a::linordered_field list \<Rightarrow> 'a list \<Rightarrow> 'a list list \<Rightarrow> nat \<Rightarrow> 'a" where
  "reduced_cost ph c pi_T Adense j = (if ph then 0 else c ! j) - dot pi_T (col Adense j)"

text \<open>The pricing loop over \<open>j\<close>: skip flagged columns, stop at the first negative cost.\<close>

fun find_entering ::
  "bool \<Rightarrow> 'a::linordered_field list \<Rightarrow> 'a list \<Rightarrow> 'a list list \<Rightarrow> bool list \<Rightarrow> nat list \<Rightarrow> nat option" where
  "find_entering ph c pi_T Adense isb [] = None"
| "find_entering ph c pi_T Adense isb (j # js) =
     (if isb ! j then find_entering ph c pi_T Adense isb js
      else if less_than (reduced_cost ph c pi_T Adense j) 0 then Some j
      else find_entering ph c pi_T Adense isb js)"

definition entering_of ::
  "nat \<Rightarrow> nat \<Rightarrow> 'a::linordered_field list \<Rightarrow> 'a list list \<Rightarrow> 'a simplex_state \<Rightarrow> nat option" where
  "entering_of n m c Adense s =
     find_entering (phase_one s) c (vec_mat (cB s) (Binv s) m) Adense (is_basic s) [0..<n]"

text \<open>
  \<open>cB(i) = basic(i) > n ? eT(0) : c(basic(i))\<close> for every row: \<open>c\<close> has \<open>n\<close> elements and
  \<open>c(k)\<close> is a checked access.
\<close>

fun phase2_costs :: "nat \<Rightarrow> 'a::zero list \<Rightarrow> nat list \<Rightarrow> exn + 'a list" where
  "phase2_costs n c [] = Inr []"
| "phase2_costs n c (k # ks) =
     (if k > n then map_sum id ((#) 0) (phase2_costs n c ks)
      else if k < length c then map_sum id ((#) (c ! k)) (phase2_costs n c ks)
      else Inl IndexOutOfBounds)"

text \<open>The ratio test, with \<open>leaving = -1\<close> as \<open>None\<close>.\<close>

fun ratio_test ::
  "'a::linordered_field list \<Rightarrow> nat list \<Rightarrow> 'a list \<Rightarrow> nat list \<Rightarrow> nat option \<times> 'a \<Rightarrow> nat option \<times> 'a" where
  "ratio_test xs bs d [] acc = acc"
| "ratio_test xs bs d (i # is) (leaving, min_ratio) =
     (if less_than 0 (d ! i)
      then (let ratio = xs ! (bs ! i) / d ! i in
            if less_than ratio min_ratio \<or> leaving = None
            then ratio_test xs bs d is (Some i, ratio)
            else ratio_test xs bs d is (leaving, min_ratio))
      else ratio_test xs bs d is (leaving, min_ratio))"

text \<open>
  The pivot: the solution, then the basis inverse (every row but the leaving one, then
  the leaving row), then the flags, the cost of the row and the basis.
\<close>

definition pivot ::
  "nat \<Rightarrow> 'a::linordered_field list \<Rightarrow> nat \<Rightarrow> nat \<Rightarrow> 'a \<Rightarrow> 'a list \<Rightarrow> 'a simplex_state \<Rightarrow> 'a simplex_state" where
  "pivot m c entering leaving min_ratio BinvAs s =
     (let x1 = fold (\<lambda>i xs. xs[basic s ! i := xs ! (basic s ! i) - min_ratio * BinvAs ! i])
                    [0..<m] (sx s);
          x2 = x1[entering := min_ratio];
          pivot_value = BinvAs ! leaving;
          B1 = map (\<lambda>i. if i = leaving then Binv s ! i
                         else map (\<lambda>j. Binv s ! i ! j - BinvAs ! i / pivot_value * Binv s ! leaving ! j)
                                  [0..<m])
                   [0..<m];
          B2 = B1[leaving := map (\<lambda>j. B1 ! leaving ! j / pivot_value) [0..<m]];
          isb1 = (is_basic s)[basic s ! leaving := False];
          isb2 = isb1[entering := False]
      in s\<lparr>is_basic := isb2,
            basic := (basic s)[leaving := entering],
            Binv := B2,
            cB := (cB s)[leaving := (if phase_one s then 0 else c ! entering)],
            sx := x2\<rparr>)"

text \<open>
  The loop \<open>while(true)\<close>, up to the label \<open>EXIT\<close>: it ends with a status, or with the
  exception of a checked access, or never (\<open>None\<close>).
\<close>

partial_function (option) simplex_loop ::
  "nat \<Rightarrow> nat \<Rightarrow> 'a::linordered_field list \<Rightarrow> 'a list list \<Rightarrow> 'a simplex_state
     \<Rightarrow> ((exn + status_t) \<times> 'a simplex_state) option" where
  "simplex_loop n m c Adense s =
     (case entering_of n m c Adense s of
        None \<Rightarrow>
          (if phase_one s
           then (let s1 = s\<lparr>phase_one := False\<rparr> in
                 if list_ex (\<lambda>j. less_than 0 (sx s1 ! j)) [n..<n + m]
                 then Some (Inr Infeasible, s1)
                 else (case phase2_costs n c (basic s1) of
                         Inl e \<Rightarrow> Some (Inl e, s1)
                       | Inr cB' \<Rightarrow> simplex_loop n m c Adense (s1\<lparr>cB := cB'\<rparr>)))
           else Some (Inr Optimal, s))
      | Some entering \<Rightarrow>
          (let BinvAs = mat_vec (Binv s) (col Adense entering) in
           case ratio_test (sx s) (basic s) BinvAs [0..<m] (None, 0) of
             (None, min_ratio) \<Rightarrow> Some (Inr Unbounded, s)
           | (Some leaving, min_ratio) \<Rightarrow>
               simplex_loop n m c Adense (pivot m c entering leaving min_ratio BinvAs s)))"

declare simplex_loop.simps [code]

text \<open>The state before the first round: the artificial variables form the basis.\<close>

definition simplex_init :: "nat \<Rightarrow> nat \<Rightarrow> 'a::linordered_field list \<Rightarrow> 'a simplex_state" where
  "simplex_init n m b =
     \<lparr>is_basic = replicate n False @ replicate m True,
      basic = [n..<n + m],
      Binv = eye m,
      cB = replicate m 1,
      sx = replicate n 0 @ map (\<lambda>i. b ! i) [0..<m],
      phase_one = True\<rparr>"

text \<open>
  \<open>simplex\<close>. A failed \<open>assert\<close> ends the program; it is the outcome \<open>AssertionFailed\<close>.
  After \<open>EXIT\<close> comes \<open>x = x.subvec(0, n-1)\<close>, whose bound wraps around for \<open>n = 0\<close>,
  and \<open>subvec\<close> checks it.
\<close>

definition simplex ::
  "'a::linordered_field LinearProgram \<Rightarrow> ((exn + bool) \<times> 'a LinearProgram) option" where
  "simplex lp =
     (let b = con_lb lp; c = obj_coeff lp; m = n_con lp; n = n_var lp in
      case build_dense m n (con_coeff lp) (zeros m n) of
        Inl e \<Rightarrow> Some (Inl e, lp)
      | Inr Adense \<Rightarrow>
          if maximize lp \<or> list_ex (\<lambda>i. less_than (b ! i) 0) [0..<m]
          then Some (Inl AssertionFailed, lp)
          else (case simplex_loop n m c Adense (simplex_init n m b) of
                  None \<Rightarrow> None
                | Some (Inl e, s) \<Rightarrow> Some (Inl e, lp\<lparr>lp_x := sx s\<rparr>)
                | Some (Inr st, s) \<Rightarrow>
                    if n = 0 then Some (Inl IndexOutOfBounds, lp\<lparr>lp_x := sx s, status := st\<rparr>)
                    else Some (Inr (st = Optimal), lp\<lparr>lp_x := take n (sx s), status := st\<rparr>)))"

section \<open>Mapping the solution back\<close>

text \<open>
  \<open>original_x\<close>: one value for every entry of \<open>var_transform\<close>; \<open>x(v)\<close> and \<open>x(v2)\<close>
  are checked accesses.
\<close>

fun original_x_loop :: "'a::linordered_field list \<Rightarrow> nat \<Rightarrow> (int \<times> 'a \<times> 'a) list \<Rightarrow> exn + 'a list" where
  "original_x_loop xs v [] = Inr []"
| "original_x_loop xs v ((v2, coeff, add) # ts) =
     (if v < length xs \<and> (v2 < 0 \<or> nat v2 < length xs)
      then (case original_x_loop xs (Suc v) ts of
              Inl e \<Rightarrow> Inl e
            | Inr res \<Rightarrow>
                Inr ((xs ! v * coeff + add - (if v2 \<ge> 0 then xs ! nat v2 else 0)) # res))
      else Inl IndexOutOfBounds)"

definition original_x :: "'a::linordered_field LinearProgram \<Rightarrow> exn + 'a list" where
  "original_x lp = original_x_loop (lp_x lp) 0 (var_transform lp)"

section \<open>Solving\<close>

text \<open>
  \<open>LinearProgram<rat>::solve\<close>. The compatibility vectors are built on the receiver;
  the canonical form and the simplex run on the copy \<open>lp(*this)\<close>. The result is the
  outcome with the receiver after the call; an exception leaves the function before
  \<open>n_var = orig\<close>.
\<close>

definition solve_rat :: "rat \<Rightarrow> rat LinearProgram \<Rightarrow> ((exn + bool) \<times> rat LinearProgram) option" where
  "solve_rat infty this =
     (case check_sizes this of
        Inl e \<Rightarrow> Some (Inl e, this)
      | Inr u \<Rightarrow>
          (let orig = n_var this;
               this1 = compat_build_matrix infty this
           in if lp_method this1 \<noteq> SimplexPrimal then Some (Inl NotSupported, this1)
              else (case to_canonical_form infty this1 of
                      None \<Rightarrow> None
                    | Some (Inl e, lp1) \<Rightarrow> Some (Inl e, this1)
                    | Some (Inr u, lp1) \<Rightarrow>
                        (case simplex lp1 of
                           None \<Rightarrow> None
                         | Some (Inl e, lp2) \<Rightarrow> Some (Inl e, this1)
                         | Some (Inr res, lp2) \<Rightarrow>
                             (let this2 = this1\<lparr>status := status lp2\<rparr> in
                              if res
                              then (case original_x lp2 of
                                      Inl e \<Rightarrow> Some (Inl e, this2)
                                    | Inr ox \<Rightarrow> Some (Inr res, this2\<lparr>lp_x := ox, n_var := orig\<rparr>))
                              else Some (Inr res, this2\<lparr>n_var := orig\<rparr>))))))"

section \<open>The floating-point path through GLPK\<close>

text \<open>
  The constants of \<open>glpk.h\<close>, the header of the external solver, with the values that
  the header gives them.
\<close>

definition GLP_MIN :: int where "GLP_MIN = 1"
definition GLP_MAX :: int where "GLP_MAX = 2"

definition GLP_FR :: int where "GLP_FR = 1"
definition GLP_LO :: int where "GLP_LO = 2"
definition GLP_UP :: int where "GLP_UP = 3"
definition GLP_DB :: int where "GLP_DB = 4"
definition GLP_FX :: int where "GLP_FX = 5"

definition GLP_UNDEF :: int where "GLP_UNDEF = 1"
definition GLP_FEAS :: int where "GLP_FEAS = 2"
definition GLP_INFEAS :: int where "GLP_INFEAS = 3"
definition GLP_NOFEAS :: int where "GLP_NOFEAS = 4"
definition GLP_OPT :: int where "GLP_OPT = 5"
definition GLP_UNBND :: int where "GLP_UNBND = 6"

definition GLP_ENOPFS :: int where "GLP_ENOPFS = 10"
definition GLP_ENODFS :: int where "GLP_ENODFS = 11"

definition GLP_PRIMAL :: int where "GLP_PRIMAL = 1"
definition GLP_DUALP :: int where "GLP_DUALP = 2"
definition GLP_DUAL :: int where "GLP_DUAL = 3"

definition GLP_OFF :: int where "GLP_OFF = 0"
definition GLP_ON :: int where "GLP_ON = 1"

text \<open>\<open>glp_msg_levs[static_cast<uint>(glp_msg_level)]\<close>, the levels being 0 to 3.\<close>

fun glp_msg_lev :: "msg_level_t \<Rightarrow> int" where
  "glp_msg_lev MsgOff = 0"
| "glp_msg_lev MsgErr = 1"
| "glp_msg_lev MsgOn = 2"
| "glp_msg_lev MsgAll = 3"

text \<open>The classification of a pair of bounds, the same for columns and rows.\<close>

definition bound_type :: "'a::uminus \<Rightarrow> 'a \<Rightarrow> 'a \<Rightarrow> int" where
  "bound_type infty lb ub =
     (if lb = - infty \<and> ub = infty then GLP_FR
      else if lb = - infty then GLP_UP
      else if ub = infty then GLP_LO
      else if lb = ub then GLP_FX
      else GLP_DB)"

text \<open>
  The two conditional chains that turn what GLPK reports into a \<open>status_t\<close>: after
  \<open>glp_simplex\<close> from \<open>glp_get_status\<close>, the return code and \<open>glp_get_dual_stat\<close>;
  after \<open>glp_interior\<close> from \<open>glp_ipt_status\<close>.
\<close>

definition simplex_status :: "int \<Rightarrow> int \<Rightarrow> int \<Rightarrow> status_t" where
  "simplex_status glp_status glp_res glp_dual_st =
     (if glp_status = GLP_OPT then Optimal
      else if glp_status = GLP_NOFEAS \<or> glp_res = GLP_ENOPFS then Infeasible
      else if glp_status = GLP_UNBND then Unbounded
      else if glp_dual_st = GLP_NOFEAS \<or> glp_res = GLP_ENODFS then InfeasibleOrUnbounded
      else Error)"

definition interior_status :: "int \<Rightarrow> status_t" where
  "interior_status glp_status =
     (if glp_status = GLP_OPT then Optimal
      else if glp_status = GLP_NOFEAS then InfeasibleOrUnbounded
      else Error)"

text \<open>
  What \<open>glpk()\<close> hands to the solver: the direction, a column for every variable (type,
  bounds, cost), a row for every constraint (type, bounds) and the triples of the
  matrix with their 1-based indices.
\<close>

record 'a glp_prob =
  obj_dir :: int
  glp_cols :: "(int \<times> 'a \<times> 'a \<times> 'a) list"
  glp_rows :: "(int \<times> 'a \<times> 'a) list"
  glp_ia :: "int list"
  glp_ja :: "int list"
  glp_ar :: "'a list"

record glp_smcp =
  meth :: int
  msg_lev :: int
  presolve :: int

text \<open>
  The solver itself is outside the repository. \<open>glp_simplex\<close> stands for the call
  followed by the three read-backs (return code, \<open>glp_get_status\<close>,
  \<open>glp_get_dual_stat\<close>, \<open>glp_get_col_prim\<close>); \<open>glp_interior\<close> for the interior-point
  call with its message level, \<open>glp_ipt_status\<close> and \<open>glp_ipt_col_prim\<close>.
\<close>

record 'a backend =
  glp_simplex :: "'a glp_prob \<Rightarrow> glp_smcp \<Rightarrow> int \<times> int \<times> int \<times> (nat \<Rightarrow> 'a)"
  glp_interior :: "'a glp_prob \<Rightarrow> int \<Rightarrow> int \<times> (nat \<Rightarrow> 'a)"

definition glpk :: "'a::uminus \<Rightarrow> 'a backend \<Rightarrow> 'a LinearProgram \<Rightarrow> bool \<times> 'a LinearProgram" where
  "glpk infty be lp =
     (let prob =
            \<lparr>obj_dir = (if maximize lp then GLP_MAX else GLP_MIN),
             glp_cols = map (\<lambda>j. (bound_type infty (var_lb lp ! j) (var_ub lp ! j),
                                   var_lb lp ! j, var_ub lp ! j, obj_coeff lp ! j))
                            [0..<n_var lp],
             glp_rows = map (\<lambda>i. (bound_type infty (con_lb lp ! i) (con_ub lp ! i),
                                   con_lb lp ! i, con_ub lp ! i))
                            [0..<n_con lp],
             glp_ia = map (\<lambda>me. int (me_row me) + 1) (con_coeff lp),
             glp_ja = map (\<lambda>me. int (me_col me) + 1) (con_coeff lp),
             glp_ar = map me_val (con_coeff lp)\<rparr>;
          lev = glp_msg_lev (glp_msg_level lp);
          is_interior = (lp_method lp = Interior);
          (st, prim) =
            (if \<not> is_interior
             then (let opt = \<lparr>meth = (if lp_method lp = SimplexPrimal then GLP_PRIMAL
                                       else if lp_method lp = SimplexDual then GLP_DUAL
                                       else GLP_DUALP),
                               msg_lev = lev,
                               presolve = (if glp_presolve lp then GLP_ON else GLP_OFF)\<rparr>;
                       (glp_res, glp_status, glp_dual_st, col_prim) = glp_simplex be prob opt
                   in (simplex_status glp_status glp_res glp_dual_st, col_prim))
             else (let (glp_status, col_prim) = glp_interior be prob lev
                   in (interior_status glp_status, col_prim)));
          lp1 = lp\<lparr>status := st\<rparr>;
          lp2 = (if st = Optimal then lp1\<lparr>lp_x := map (\<lambda>j. prim (j + 1)) [0..<n_var lp1]\<rparr>
                 else lp1)
      in (st = Optimal, lp2))"

text \<open>
  The generic \<open>solve\<close>, for the element types other than \<open>rat\<close>: the outcome and the
  receiver after the call.
\<close>

definition solve ::
  "'a::{zero,uminus,plus} \<Rightarrow> 'a backend \<Rightarrow> 'a LinearProgram \<Rightarrow> (exn + bool) \<times> 'a LinearProgram" where
  "solve infty be this =
     (case check_sizes this of
        Inl e \<Rightarrow> (Inl e, this)
      | Inr u \<Rightarrow>
          (let orig = n_var this;
               this1 = compat_build_matrix infty this;
               (res, this2) = glpk infty be this1
           in (Inr res, this2\<lparr>n_var := orig\<rparr>)))"

section \<open>The canonical form, on the matrices\<close>

text \<open>
  The static members of \<open>Defaults\<close> are defined outside the files at hand, and the
  member \<open>status\<close> has no initialiser: a default-constructed object takes them as
  arguments. \<open>is_rat\<close> says whether the element type is \<open>rat\<close>.
\<close>

record Defaults =
  d_glp_presolve :: bool
  d_glp_msg_level :: msg_level_t
  d_method :: method_t

definition LinearProgram_new :: "bool \<Rightarrow> Defaults \<Rightarrow> status_t \<Rightarrow> 'a::zero LinearProgram" where
  "LinearProgram_new is_rat dflt st =
     \<lparr>lp_A = \<lparr>n_rows = 0, n_cols = 0, mem = []\<rparr>,
      lp_x = [], lp_b = [], lp_c = [], lp_sense = [],
      maximize = True, non_negative = True,
      lp_method = (if is_rat then SimplexPrimal else d_method dflt),
      glp_presolve = (if is_rat then False else d_glp_presolve dflt),
      status = st,
      glp_msg_level = d_glp_msg_level dflt,
      obj_coeff = [], con_coeff = [], var_lb = [], var_ub = [], con_lb = [], con_ub = [],
      n_var = 0, n_con = 0, var_transform = []\<rparr>"

text \<open>
  \<open>canonical_form\<close>: every write goes to the local object \<open>lp\<close>, which is returned; the
  second component is the receiver after the call. \<open>lp.A.cols(0, n-1) = A\<close> is checked
  and has no column to name when \<open>n = 0\<close>; \<open>lp.c.rows(0, n-1) = c\<close> wants \<open>c\<close> to have
  \<open>n\<close> rows. \<open>b.at(i)\<close> is an unchecked read, in range when \<open>b\<close> has a row for every
  row of \<open>A\<close>.
\<close>

definition canonical_form ::
  "bool \<Rightarrow> Defaults \<Rightarrow> status_t \<Rightarrow> 'a::linordered_field LinearProgram
     \<Rightarrow> (exn + 'a LinearProgram) \<times> 'a LinearProgram" where
  "canonical_form is_rat dflt st this =
     (let m = n_rows (lp_A this);
          n = n_cols (lp_A this);
          lp0 = (LinearProgram_new is_rat dflt st)
                  \<lparr>maximize := False, non_negative := True, lp_sense := replicate m CHR ''=''\<rparr>;
          extra = length (filter (\<lambda>i. get_sense this i \<noteq> CHR ''='') [0..<m])
      in if n = 0 then (Inl IndexOutOfBounds, this)
         else if length (lp_c this) \<noteq> n then (Inl IncompatibleDimensions, this)
         else
           (let A1 = \<lparr>n_rows = m, n_cols = n + extra,
                      mem = map (\<lambda>i. map (\<lambda>j. if j < n then m_at (lp_A this) i j else 0)
                                         [0..<n + extra])
                                [0..<m]\<rparr>;
                c1 = lp_c this @ replicate extra 0;
                c2 = (if maximize this then map (\<lambda>v. v * - 1) c1 else c1);
                (offset, A2) =
                  fold (\<lambda>i (offset, M).
                          if get_sense this i \<noteq> CHR ''=''
                          then (Suc offset,
                                M\<lparr>mem := (mem M)[i := (mem M ! i)
                                     [n + offset := (if get_sense this i = CHR ''<'' then 1 else - 1)]]\<rparr>)
                          else (offset, M))
                       [0..<m] (0, A1);
                (A3, b1) =
                  fold (\<lambda>i (M, bs).
                          if lp_b this ! i < 0
                          then (M\<lparr>mem := (mem M)[i := map (\<lambda>v. v * - 1) (mem M ! i)]\<rparr>,
                                bs[i := bs ! i * - 1])
                          else (M, bs))
                       [0..<m] (A2, lp_b this)
            in (Inr (lp0\<lparr>lp_A := A3, lp_c := c2, lp_b := b1\<rparr>), this)))"

section \<open>Notions used in the statements\<close>

text \<open>The row vectors are as long as the row counter says.\<close>

definition rows_ok :: "'a LinearProgram \<Rightarrow> bool" where
  "rows_ok s \<longleftrightarrow> length (con_lb s) = n_con s \<and> length (con_ub s) = n_con s"

text \<open>
  A row that the slack loop turns into an equation: it has no lower bound, or no upper
  bound, or its bounds are equal.
\<close>

definition one_sided :: "'a::linordered_field \<Rightarrow> 'a LinearProgram \<Rightarrow> nat \<Rightarrow> bool" where
  "one_sided infty s c \<longleftrightarrow>
     con_lb s ! c = - infty \<or> con_ub s ! c = infty \<or> con_lb s ! c = con_ub s ! c"

text \<open>
  The conditions of the three branches of the loop over the variables, and the tuple
  that the branch taken pushes on \<open>var_transform\<close>; \<open>xnew\<close> is the value of \<open>n_var\<close>
  at that moment.
\<close>

definition transform_of :: "'a::linordered_field \<Rightarrow> 'a \<Rightarrow> 'a \<Rightarrow> nat \<Rightarrow> int \<times> 'a \<times> 'a" where
  "transform_of infty lb ub xnew =
     (if lb = - infty \<and> ub = infty then (int xnew, 1, 0)
      else if lb = infty then (- 1, - 1, ub)
      else (- 1, 1, - lb))"

definition is_free :: "'a::linordered_field \<Rightarrow> 'a LinearProgram \<Rightarrow> nat \<Rightarrow> bool" where
  "is_free infty lp v \<longleftrightarrow> var_lb lp ! v = - infty \<and> var_ub lp ! v = infty"

text \<open>The free variables below \<open>v\<close>: each of them has made one new variable.\<close>

definition free_before :: "'a::linordered_field \<Rightarrow> 'a LinearProgram \<Rightarrow> nat \<Rightarrow> nat" where
  "free_before infty lp v = length (filter (is_free infty lp) [0..<v])"





text \<open>
  The problem object that \<open>glpk\<close> builds from the model (direction, columns, rows and
  the three arrays of the matrix, 1-based), and the control parameters that it sets
  for the simplex.
\<close>

definition glp_problem :: "'a::uminus \<Rightarrow> 'a LinearProgram \<Rightarrow> 'a glp_prob" where
  "glp_problem infty lp =
     \<lparr>obj_dir = (if maximize lp then GLP_MAX else GLP_MIN),
      glp_cols = map (\<lambda>j. (bound_type infty (var_lb lp ! j) (var_ub lp ! j),
                            var_lb lp ! j, var_ub lp ! j, obj_coeff lp ! j))
                     [0..<n_var lp],
      glp_rows = map (\<lambda>i. (bound_type infty (con_lb lp ! i) (con_ub lp ! i),
                            con_lb lp ! i, con_ub lp ! i))
                     [0..<n_con lp],
      glp_ia = map (\<lambda>me. int (me_row me) + 1) (con_coeff lp),
      glp_ja = map (\<lambda>me. int (me_col me) + 1) (con_coeff lp),
      glp_ar = map me_val (con_coeff lp)\<rparr>"

definition glp_options :: "'a LinearProgram \<Rightarrow> glp_smcp" where
  "glp_options lp =
     \<lparr>meth = (if lp_method lp = SimplexPrimal then GLP_PRIMAL
              else if lp_method lp = SimplexDual then GLP_DUAL
              else GLP_DUALP),
      msg_lev = glp_msg_lev (glp_msg_level lp),
      presolve = (if glp_presolve lp then GLP_ON else GLP_OFF)\<rparr>"

section \<open>Objects for the examples\<close>

text \<open>
  A default-constructed \<open>LinearProgram<rat>\<close>, with primal simplex and silence as the
  library defaults and \<open>Error\<close> for the member without initialiser.
\<close>

definition the_defaults :: Defaults where
  "the_defaults = \<lparr>d_glp_presolve = False, d_glp_msg_level = MsgOff, d_method = SimplexPrimal\<rparr>"

definition empty_lp :: "rat LinearProgram" where
  "empty_lp = LinearProgram_new True the_defaults Error"

text \<open>One row \<open>0 \<le> r \<le> 1\<close>, one variable \<open>0 \<le> x\<close> and the coefficient 3 of \<open>x\<close> in the row.\<close>

definition one_entry_lp :: "rat LinearProgram" where
  "one_entry_lp =
     set_con_coeff 0 0 3 False (snd (make_var 0 1000 (snd (make_con 1000 0 1 empty_lp))))"

text \<open>
  With 1000 for infinity: a free variable \<open>x0\<close> and a variable \<open>1 \<le> x1 \<le> 4\<close>, the rows
  \<open>-2 \<le> x0 + x1 \<le> 3\<close> and \<open>x0 - x1 \<le> -1\<close>, and the objective \<open>x0 + 2 x1\<close> to maximise.
\<close>

definition mixed_lp :: "rat LinearProgram" where
  "mixed_lp =
     (let (x0, l1) = make_var (- 1000) 1000 empty_lp;
          (x1, l2) = make_var 1 4 l1;
          (r0, l3) = make_con 1000 (- 2) 3 l2;
          (r1, l4) = make_con 1000 (- 1000) (- 1) l3;
          l5 = set_obj_coeff x0 1 False l4;
          l6 = set_obj_coeff x1 2 False l5;
          l7 = set_con_coeff 0 x0 1 False l6;
          l8 = set_con_coeff 0 x1 1 False l7;
          l9 = set_con_coeff 1 x0 1 False l8
      in set_con_coeff 1 x1 (- 1) False l9)"

definition mixed_canon :: "rat LinearProgram" where
  "mixed_canon = snd (the (to_canonical_form 1000 mixed_lp))"

text \<open>
  With 1000 for infinity: one variable \<open>x0 \<le> 5\<close> without lower bound, the row
  \<open>x0 \<le> 10\<close>, and the objective \<open>x0\<close> to minimise.
\<close>

definition upper_only_lp :: "rat LinearProgram" where
  "upper_only_lp =
     (let (x0, l1) = make_var (- 1000) 5 (empty_lp\<lparr>maximize := False\<rparr>);
          (r0, l2) = make_con 1000 (- 1000) 10 l1;
          l3 = set_obj_coeff x0 1 False l2
      in set_con_coeff 0 x0 1 False l3)"

definition upper_only_canon :: "rat LinearProgram" where
  "upper_only_canon = snd (the (to_canonical_form 1000 upper_only_lp))"

text \<open>
  The scenario of the test suite: a variable \<open>x \<ge> -5\<close>, the dummy row \<open>0 \<le> 0 \<le> 0\<close>, and
  \<open>x\<close> to minimise.
\<close>

definition lower_bounded_lp :: "rat LinearProgram" where
  "lower_bounded_lp =
     (let (v, l1) = make_var (- 5) 1000 (empty_lp\<lparr>maximize := False\<rparr>);
          (r0, l2) = make_con 1000 0 0 l1
      in set_obj_coeff v 1 False l2)"

text \<open>
  A model given by matrices only, \<open>minimize -x\<close> subject to \<open>x \<ge> 2\<close>: no variable was
  made through \<open>make_var\<close>.
\<close>

definition unbounded_dense_lp :: "rat LinearProgram" where
  "unbounded_dense_lp =
     empty_lp\<lparr>lp_A := \<lparr>n_rows = 1, n_cols = 1, mem = [[1]]\<rparr>, lp_b := [2], lp_c := [- 1],
              lp_sense := ''>'', maximize := False\<rparr>"

text \<open>Two GLPK runs: one that reports an optimum with all values 7, one that reports none.\<close>

definition optimal_backend :: "rat backend" where
  "optimal_backend =
     \<lparr>glp_simplex = (\<lambda>prob opt. (0, GLP_OPT, GLP_FEAS, (\<lambda>j. 7))),
      glp_interior = (\<lambda>prob lev. (GLP_OPT, (\<lambda>j. 7)))\<rparr>"

definition nofeas_backend :: "rat backend" where
  "nofeas_backend =
     \<lparr>glp_simplex = (\<lambda>prob opt. (0, GLP_NOFEAS, GLP_UNDEF, (\<lambda>j. 7))),
      glp_interior = (\<lambda>prob lev. (GLP_NOFEAS, (\<lambda>j. 7)))\<rparr>"



text \<open>With 1000 for infinity: one variable \<open>0 \<le> x\<close>, the row \<open>x \<le> 2\<close>, and \<open>x\<close> to maximise.\<close>

definition small_lp :: "rat LinearProgram" where
  "small_lp =
     (let (x0, l1) = make_var 0 1000 empty_lp;
          (r0, l2) = make_con 1000 (- 1000) 2 l1;
          l3 = set_obj_coeff x0 1 False l2
      in set_con_coeff 0 x0 1 False l3)"




section \<open>Creating constraints\<close>

text \<open>
  C6. \<open>make_con\<close> fails with \<open>InvalidConstraint\<close> exactly when the lower bound is minus
  infinity and the upper bound is plus infinity, and then leaves the model as it was;
  for every other pair of bounds, whatever their order, it appends the two bounds, counts
  the constraint and returns the previous count as the index of the new constraint.
\<close>

theorem make_con_spec:
  fixes infty :: "'a::group_add"
  shows "(lb = - infty \<and> ub = infty \<longrightarrow> make_con infty lb ub lp = (Inl InvalidConstraint, lp)) \<and>
         (\<not> (lb = - infty \<and> ub = infty) \<longrightarrow>
            make_con infty lb ub lp =
              (Inr (n_con lp),
               lp\<lparr>con_lb := con_lb lp @ [lb], con_ub := con_ub lp @ [ub],
                  n_con := Suc (n_con lp)\<rparr>))"
  by (auto simp: make_con_def)

theorem make_con_spec_witness:
  "make_con (1000 :: rat) (- 1000) 1000 empty_lp = (Inl InvalidConstraint, empty_lp) \<and>
   make_con (1000 :: rat) 3 1 empty_lp =
     (Inr 0, empty_lp\<lparr>con_lb := [3], con_ub := [1], n_con := 1\<rparr>) \<and>
   make_con (1000 :: rat) 1000 1000 empty_lp =
     (Inr 0, empty_lp\<lparr>con_lb := [1000], con_ub := [1000], n_con := 1\<rparr>)"
  using make_con_spec [of "- 1000" "1000 :: rat" 1000 empty_lp]
    make_con_spec [of 3 "1000 :: rat" 1 empty_lp]
    make_con_spec [of 1000 "1000 :: rat" 1000 empty_lp]
  by (simp add: empty_lp_def LinearProgram_new_def)

section \<open>Setting coefficients\<close>

lemma add_to_first_None:
  "add_to_first con var coeff mes = None \<longleftrightarrow>
     (\<forall>e \<in> set mes. \<not> (me_row e = con \<and> me_col e = var))"
  by (induction mes) auto

lemma add_to_first_Some:
  "\<forall>e \<in> set pre. \<not> (me_row e = con \<and> me_col e = var) \<Longrightarrow>
   me_row me = con \<Longrightarrow> me_col me = var \<Longrightarrow>
   add_to_first con var coeff (pre @ me # post) =
     Some (pre @ me\<lparr>me_val := me_val me + coeff\<rparr> # post)"
  by (induction pre) auto

text \<open>
  C7, as the code has it. \<open>set_obj_coeff\<close> on an existing variable overwrites the cost
  (flag false) or adds to it (flag true). \<open>set_con_coeff\<close> with the flag false appends
  a new entry and leaves the entries already stored for the pair where they are; with
  the flag true it adds the value to the first entry stored for the pair, and appends
  a new entry when there is none. The value is stored as it is given, zero included.
\<close>

theorem set_coeff_spec:
  "(var < length (obj_coeff lp) \<longrightarrow>
      set_obj_coeff var coeff False lp = lp\<lparr>obj_coeff := (obj_coeff lp)[var := coeff]\<rparr> \<and>
      obj_coeff (set_obj_coeff var coeff False lp) ! var = coeff \<and>
      obj_coeff (set_obj_coeff var coeff True lp) ! var = obj_coeff lp ! var + coeff) \<and>
   set_con_coeff con var coeff False lp =
     lp\<lparr>con_coeff := con_coeff lp @ [\<lparr>me_row = con, me_col = var, me_val = coeff\<rparr>]\<rparr> \<and>
   (con_coeff lp = pre @ me # post \<and>
    (\<forall>e \<in> set pre. \<not> (me_row e = con \<and> me_col e = var)) \<and>
    me_row me = con \<and> me_col me = var \<longrightarrow>
      set_con_coeff con var coeff True lp =
        lp\<lparr>con_coeff := pre @ me\<lparr>me_val := me_val me + coeff\<rparr> # post\<rparr>) \<and>
   ((\<forall>e \<in> set (con_coeff lp). \<not> (me_row e = con \<and> me_col e = var)) \<longrightarrow>
      set_con_coeff con var coeff True lp =
        lp\<lparr>con_coeff := con_coeff lp @ [\<lparr>me_row = con, me_col = var, me_val = coeff\<rparr>]\<rparr>)"
proof -
  have obj: "var < length (obj_coeff lp) \<Longrightarrow>
      set_obj_coeff var coeff False lp = lp\<lparr>obj_coeff := (obj_coeff lp)[var := coeff]\<rparr> \<and>
      obj_coeff (set_obj_coeff var coeff False lp) ! var = coeff \<and>
      obj_coeff (set_obj_coeff var coeff True lp) ! var = obj_coeff lp ! var + coeff"
    by (simp add: set_obj_coeff_def)
  have app: "set_con_coeff con var coeff False lp =
     lp\<lparr>con_coeff := con_coeff lp @ [\<lparr>me_row = con, me_col = var, me_val = coeff\<rparr>]\<rparr>"
    by (simp add: set_con_coeff_def)
  have acc: "con_coeff lp = pre @ me # post \<Longrightarrow>
    \<forall>e \<in> set pre. \<not> (me_row e = con \<and> me_col e = var) \<Longrightarrow>
    me_row me = con \<Longrightarrow> me_col me = var \<Longrightarrow>
      set_con_coeff con var coeff True lp =
        lp\<lparr>con_coeff := pre @ me\<lparr>me_val := me_val me + coeff\<rparr> # post\<rparr>"
    by (simp add: set_con_coeff_def add_to_first_Some)
  have fresh: "\<forall>e \<in> set (con_coeff lp). \<not> (me_row e = con \<and> me_col e = var) \<Longrightarrow>
      set_con_coeff con var coeff True lp =
        lp\<lparr>con_coeff := con_coeff lp @ [\<lparr>me_row = con, me_col = var, me_val = coeff\<rparr>]\<rparr>"
    using add_to_first_None [of con var coeff "con_coeff lp"]
    by (simp add: set_con_coeff_def)
  show ?thesis using obj app acc fresh by blast
qed

theorem set_coeff_spec_witness:
  "0 < length (obj_coeff one_entry_lp) \<and>
   obj_coeff (set_obj_coeff 0 7 False one_entry_lp) ! 0 = 7 \<and>
   obj_coeff (set_obj_coeff 0 2 True (set_obj_coeff 0 7 False one_entry_lp)) ! 0 = 9 \<and>
   con_coeff (set_con_coeff 0 0 5 True one_entry_lp) = [\<lparr>me_row = 0, me_col = 0, me_val = 8\<rparr>] \<and>
   con_coeff (set_con_coeff 0 0 5 True empty_lp) = [\<lparr>me_row = 0, me_col = 0, me_val = 5\<rparr>]"
  using set_coeff_spec [of 0 one_entry_lp 7 0 "[]" "\<lparr>me_row = 0, me_col = 0, me_val = 3\<rparr>" "[]"]
    set_coeff_spec [of 0 "set_obj_coeff 0 7 False one_entry_lp" 2 0 "[]" "\<lparr>me_row = 0, me_col = 0, me_val = 3\<rparr>" "[]"]
    set_coeff_spec [of 0 one_entry_lp 5 0 "[]" "\<lparr>me_row = 0, me_col = 0, me_val = 3\<rparr>" "[]"]
    set_coeff_spec [of 0 empty_lp 5 0 "[]" "\<lparr>me_row = 0, me_col = 0, me_val = 3\<rparr>" "[]"]
  by (simp add: one_entry_lp_def empty_lp_def LinearProgram_new_def make_var_def make_con_def set_con_coeff_def set_obj_coeff_def)

text \<open>
  Against C7 as stated: after a second \<open>set_con_coeff\<close> with the flag false the pair has
  two entries, the old value among them, and a zero coefficient is stored like any other.
\<close>

theorem set_con_coeff_overwrite_counterexample:
  "con_coeff (set_con_coeff 0 0 5 False one_entry_lp) =
     [\<lparr>me_row = 0, me_col = 0, me_val = 3\<rparr>, \<lparr>me_row = 0, me_col = 0, me_val = 5\<rparr>] \<and>
   con_coeff (set_con_coeff 0 0 0 False empty_lp) = [\<lparr>me_row = 0, me_col = 0, me_val = 0\<rparr>]"
  by (simp add: one_entry_lp_def empty_lp_def LinearProgram_new_def make_var_def make_con_def set_con_coeff_def)

section \<open>The status of a GLPK run\<close>

lemma glpk_simplex_run:
  assumes "lp_method lp \<noteq> Interior"
    and "glp_simplex be (glp_problem infty lp) (glp_options lp) = (res, st, dual, prim)"
  shows "glpk infty be lp =
           (simplex_status st res dual = Optimal,
            if simplex_status st res dual = Optimal
            then lp\<lparr>status := Optimal, lp_x := map (\<lambda>j. prim (j + 1)) [0..<n_var lp]\<rparr>
            else lp\<lparr>status := simplex_status st res dual\<rparr>)"
  using assms by (simp add: glpk_def glp_problem_def glp_options_def Let_def)

lemma glpk_interior_run:
  assumes "lp_method lp = Interior"
    and "glp_interior be (glp_problem infty lp) (glp_msg_lev (glp_msg_level lp)) = (st, prim)"
  shows "glpk infty be lp =
           (interior_status st = Optimal,
            if interior_status st = Optimal
            then lp\<lparr>status := Optimal, lp_x := map (\<lambda>j. prim (j + 1)) [0..<n_var lp]\<rparr>
            else lp\<lparr>status := interior_status st\<rparr>)"
  using assms by (simp add: glpk_def glp_problem_def Let_def)

lemma solve_runs_glpk:
  assumes "check_sizes this = Inr ()"
  shows "solve infty be this =
           (Inr (fst (glpk infty be (compat_build_matrix infty this))),
            (snd (glpk infty be (compat_build_matrix infty this)))\<lparr>n_var := n_var this\<rparr>)"
  using assms by (simp add: solve_def Let_def split: prod.splits)

text \<open>
  C8. The status after a GLPK run is one of five, decided in this order. After the
  simplex: \<open>Optimal\<close> on \<open>GLP_OPT\<close>; else \<open>Infeasible\<close> on \<open>GLP_NOFEAS\<close> or the return
  code \<open>GLP_ENOPFS\<close>; else \<open>Unbounded\<close> on \<open>GLP_UNBND\<close>; else \<open>InfeasibleOrUnbounded\<close>
  on a dual status \<open>GLP_NOFEAS\<close> or the return code \<open>GLP_ENODFS\<close>; else \<open>Error\<close>. After
  the interior-point method: \<open>Optimal\<close> on \<open>GLP_OPT\<close>, \<open>InfeasibleOrUnbounded\<close> on
  \<open>GLP_NOFEAS\<close>, else \<open>Error\<close>, and never \<open>Unbounded\<close> or \<open>Infeasible\<close>. Each of the
  five is the status of some simplex run. \<open>glpk\<close> runs the simplex unless the method is
  \<open>Interior\<close>, and then the interior-point method; it stores the status that the
  chain of the run gives to what the library reports, returns whether that status is
  \<open>Optimal\<close>, and reads the solution only then. \<open>solve\<close>, once the sizes are checked,
  is this run of \<open>glpk\<close> on the model rebuilt by \<open>compat_build_matrix\<close>, with \<open>n_var\<close>
  restored.
\<close>

theorem status_normalization:
  "(simplex_status st res dual = Optimal \<longleftrightarrow> st = GLP_OPT) \<and>
   (simplex_status st res dual = Infeasible \<longleftrightarrow>
      st \<noteq> GLP_OPT \<and> (st = GLP_NOFEAS \<or> res = GLP_ENOPFS)) \<and>
   (simplex_status st res dual = Unbounded \<longleftrightarrow> st = GLP_UNBND \<and> res \<noteq> GLP_ENOPFS) \<and>
   (simplex_status st res dual = InfeasibleOrUnbounded \<longleftrightarrow>
      st \<noteq> GLP_OPT \<and> st \<noteq> GLP_NOFEAS \<and> res \<noteq> GLP_ENOPFS \<and> st \<noteq> GLP_UNBND \<and>
      (dual = GLP_NOFEAS \<or> res = GLP_ENODFS)) \<and>
   (simplex_status st res dual = Error \<longleftrightarrow>
      st \<noteq> GLP_OPT \<and> st \<noteq> GLP_NOFEAS \<and> res \<noteq> GLP_ENOPFS \<and> st \<noteq> GLP_UNBND \<and>
      dual \<noteq> GLP_NOFEAS \<and> res \<noteq> GLP_ENODFS) \<and>
   (interior_status st = Optimal \<longleftrightarrow> st = GLP_OPT) \<and>
   (interior_status st = InfeasibleOrUnbounded \<longleftrightarrow> st = GLP_NOFEAS) \<and>
   (interior_status st = Error \<longleftrightarrow> st \<noteq> GLP_OPT \<and> st \<noteq> GLP_NOFEAS) \<and>
   interior_status st \<noteq> Unbounded \<and> interior_status st \<noteq> Infeasible \<and>
   simplex_status GLP_OPT 0 GLP_FEAS = Optimal \<and>
   simplex_status GLP_NOFEAS 0 GLP_UNDEF = Infeasible \<and>
   simplex_status GLP_UNDEF GLP_ENOPFS GLP_UNDEF = Infeasible \<and>
   simplex_status GLP_UNBND 0 GLP_NOFEAS = Unbounded \<and>
   simplex_status GLP_INFEAS 0 GLP_NOFEAS = InfeasibleOrUnbounded \<and>
   simplex_status GLP_UNDEF GLP_ENODFS GLP_UNDEF = InfeasibleOrUnbounded \<and>
   simplex_status GLP_UNDEF 0 GLP_UNDEF = Error \<and>
   (lp_method lp \<noteq> Interior \<and>
    glp_simplex be (glp_problem infty lp) (glp_options lp) = (res, st, dual, prim) \<longrightarrow>
      status (snd (glpk infty be lp)) = simplex_status st res dual \<and>
      glpk infty be lp =
        (simplex_status st res dual = Optimal,
         if simplex_status st res dual = Optimal
         then lp\<lparr>status := Optimal, lp_x := map (\<lambda>j. prim (j + 1)) [0..<n_var lp]\<rparr>
         else lp\<lparr>status := simplex_status st res dual\<rparr>)) \<and>
   (lp_method lp = Interior \<and>
    glp_interior be (glp_problem infty lp) (glp_msg_lev (glp_msg_level lp)) = (st, prim) \<longrightarrow>
      status (snd (glpk infty be lp)) = interior_status st \<and>
      glpk infty be lp =
        (interior_status st = Optimal,
         if interior_status st = Optimal
         then lp\<lparr>status := Optimal, lp_x := map (\<lambda>j. prim (j + 1)) [0..<n_var lp]\<rparr>
         else lp\<lparr>status := interior_status st\<rparr>)) \<and>
   (check_sizes this = Inr () \<longrightarrow>
      solve infty be this =
        (Inr (fst (glpk infty be (compat_build_matrix infty this))),
         (snd (glpk infty be (compat_build_matrix infty this)))\<lparr>n_var := n_var this\<rparr>))"
proof -
  have chains:
    "(simplex_status st res dual = Optimal \<longleftrightarrow> st = GLP_OPT) \<and>
     (simplex_status st res dual = Infeasible \<longleftrightarrow>
        st \<noteq> GLP_OPT \<and> (st = GLP_NOFEAS \<or> res = GLP_ENOPFS)) \<and>
     (simplex_status st res dual = Unbounded \<longleftrightarrow> st = GLP_UNBND \<and> res \<noteq> GLP_ENOPFS) \<and>
     (simplex_status st res dual = InfeasibleOrUnbounded \<longleftrightarrow>
        st \<noteq> GLP_OPT \<and> st \<noteq> GLP_NOFEAS \<and> res \<noteq> GLP_ENOPFS \<and> st \<noteq> GLP_UNBND \<and>
        (dual = GLP_NOFEAS \<or> res = GLP_ENODFS)) \<and>
     (simplex_status st res dual = Error \<longleftrightarrow>
        st \<noteq> GLP_OPT \<and> st \<noteq> GLP_NOFEAS \<and> res \<noteq> GLP_ENOPFS \<and> st \<noteq> GLP_UNBND \<and>
        dual \<noteq> GLP_NOFEAS \<and> res \<noteq> GLP_ENODFS) \<and>
     (interior_status st = Optimal \<longleftrightarrow> st = GLP_OPT) \<and>
     (interior_status st = InfeasibleOrUnbounded \<longleftrightarrow> st = GLP_NOFEAS) \<and>
     (interior_status st = Error \<longleftrightarrow> st \<noteq> GLP_OPT \<and> st \<noteq> GLP_NOFEAS) \<and>
     interior_status st \<noteq> Unbounded \<and> interior_status st \<noteq> Infeasible \<and>
     simplex_status GLP_OPT 0 GLP_FEAS = Optimal \<and>
     simplex_status GLP_NOFEAS 0 GLP_UNDEF = Infeasible \<and>
     simplex_status GLP_UNDEF GLP_ENOPFS GLP_UNDEF = Infeasible \<and>
     simplex_status GLP_UNBND 0 GLP_NOFEAS = Unbounded \<and>
     simplex_status GLP_INFEAS 0 GLP_NOFEAS = InfeasibleOrUnbounded \<and>
     simplex_status GLP_UNDEF GLP_ENODFS GLP_UNDEF = InfeasibleOrUnbounded \<and>
     simplex_status GLP_UNDEF 0 GLP_UNDEF = Error"
    by (simp add: simplex_status_def interior_status_def GLP_OPT_def GLP_NOFEAS_def GLP_UNBND_def
        GLP_ENOPFS_def GLP_ENODFS_def GLP_FEAS_def GLP_UNDEF_def GLP_INFEAS_def)
  have smp: "lp_method lp \<noteq> Interior \<and>
      glp_simplex be (glp_problem infty lp) (glp_options lp) = (res, st, dual, prim) \<longrightarrow>
      status (snd (glpk infty be lp)) = simplex_status st res dual \<and>
      glpk infty be lp =
        (simplex_status st res dual = Optimal,
         if simplex_status st res dual = Optimal
         then lp\<lparr>status := Optimal, lp_x := map (\<lambda>j. prim (j + 1)) [0..<n_var lp]\<rparr>
         else lp\<lparr>status := simplex_status st res dual\<rparr>)"
    by (simp add: glpk_simplex_run)
  have itr: "lp_method lp = Interior \<and>
      glp_interior be (glp_problem infty lp) (glp_msg_lev (glp_msg_level lp)) = (st, prim) \<longrightarrow>
      status (snd (glpk infty be lp)) = interior_status st \<and>
      glpk infty be lp =
        (interior_status st = Optimal,
         if interior_status st = Optimal
         then lp\<lparr>status := Optimal, lp_x := map (\<lambda>j. prim (j + 1)) [0..<n_var lp]\<rparr>
         else lp\<lparr>status := interior_status st\<rparr>)"
    by (simp add: glpk_interior_run)
  have slv: "check_sizes this = Inr () \<longrightarrow>
      solve infty be this =
        (Inr (fst (glpk infty be (compat_build_matrix infty this))),
         (snd (glpk infty be (compat_build_matrix infty this)))\<lparr>n_var := n_var this\<rparr>)"
    by (simp add: solve_runs_glpk)
  from chains smp itr slv show ?thesis by (intro conjI) (simp_all only: simp_thms)
qed

theorem status_normalization_witness:
  "lp_method mixed_lp \<noteq> Interior \<and>
   glp_simplex nofeas_backend (glp_problem 1000 mixed_lp) (glp_options mixed_lp) =
     (0, GLP_NOFEAS, GLP_UNDEF, (\<lambda>j. 7)) \<and>
   glpk 1000 nofeas_backend mixed_lp = (False, mixed_lp\<lparr>status := Infeasible\<rparr>) \<and>
   lp_method (mixed_lp\<lparr>lp_method := Interior\<rparr>) = Interior \<and>
   glp_interior nofeas_backend (glp_problem 1000 (mixed_lp\<lparr>lp_method := Interior\<rparr>))
       (glp_msg_lev (glp_msg_level (mixed_lp\<lparr>lp_method := Interior\<rparr>))) =
     (GLP_NOFEAS, (\<lambda>j. 7)) \<and>
   glpk 1000 nofeas_backend (mixed_lp\<lparr>lp_method := Interior\<rparr>) =
     (False, mixed_lp\<lparr>lp_method := Interior, status := InfeasibleOrUnbounded\<rparr>) \<and>
   glp_simplex optimal_backend (glp_problem 1000 mixed_lp) (glp_options mixed_lp) =
     (0, GLP_OPT, GLP_FEAS, (\<lambda>j. 7)) \<and>
   check_sizes mixed_lp = Inr () \<and> compat_build_matrix 1000 mixed_lp = mixed_lp \<and>
   solve 1000 optimal_backend mixed_lp =
     (Inr True, mixed_lp\<lparr>status := Optimal, lp_x := [7, 7]\<rparr>)"
proof -
  let ?il = "mixed_lp\<lparr>lp_method := Interior\<rparr>"
  have m: "lp_method mixed_lp \<noteq> Interior" by code_simp
  have mi: "lp_method ?il = Interior" by simp
  have n: "n_var mixed_lp = 2" by code_simp
  have cs: "check_sizes mixed_lp = Inr ()" by code_simp
  have cb: "compat_build_matrix 1000 mixed_lp = mixed_lp"
    using n by (simp add: compat_build_matrix_def)
  have r1: "glp_simplex nofeas_backend (glp_problem 1000 mixed_lp) (glp_options mixed_lp) =
              (0, GLP_NOFEAS, GLP_UNDEF, (\<lambda>j. 7))"
    by (simp add: nofeas_backend_def)
  have r2: "glp_interior nofeas_backend (glp_problem 1000 ?il)
              (glp_msg_lev (glp_msg_level ?il)) = (GLP_NOFEAS, (\<lambda>j. 7))"
    by (simp add: nofeas_backend_def)
  have r3: "glp_simplex optimal_backend (glp_problem 1000 mixed_lp) (glp_options mixed_lp) =
              (0, GLP_OPT, GLP_FEAS, (\<lambda>j. 7))"
    by (simp add: optimal_backend_def)
  from status_normalization[where st = GLP_NOFEAS and res = 0 and dual = GLP_UNDEF
      and lp = mixed_lp and be = nofeas_backend and infty = 1000 and prim = "\<lambda>j. 7"] m r1
  have g1: "glpk 1000 nofeas_backend mixed_lp = (False, mixed_lp\<lparr>status := Infeasible\<rparr>)"
    by simp
  from status_normalization[where st = GLP_NOFEAS and lp = ?il and be = nofeas_backend
      and infty = 1000 and prim = "\<lambda>j. 7"] mi r2
  have g2: "glpk 1000 nofeas_backend ?il =
              (False, mixed_lp\<lparr>lp_method := Interior, status := InfeasibleOrUnbounded\<rparr>)"
    by simp
  from status_normalization[where st = GLP_OPT and res = 0 and dual = GLP_FEAS
      and lp = mixed_lp and be = optimal_backend and infty = 1000 and prim = "\<lambda>j. 7"
      and this = mixed_lp] m r3 cs cb n
  have g3: "solve 1000 optimal_backend mixed_lp =
              (Inr True, mixed_lp\<lparr>status := Optimal, lp_x := [7, 7]\<rparr>)"
    by (simp add: numeral_2_eq_2)
  from m r1 g1 mi r2 g2 r3 cs cb g3 show ?thesis by (intro conjI)
qed

section \<open>The canonical form\<close>

text \<open>What each piece of \<open>to_canonical_form\<close> writes, and what it leaves alone.\<close>

lemma set_con_coeff_frame: "\<exists>cc. set_con_coeff con var coeff add lp = lp\<lparr>con_coeff := cc\<rparr>"
  by (auto simp: set_con_coeff_def split: option.splits)

lemma walk_coeffs_frame:
  assumes "walk_coeffs body i s = Some s'"
    and "\<And>me t. \<exists>cc. body me t = t\<lparr>con_coeff := cc\<rparr>"
  shows "\<exists>cc. s' = s\<lparr>con_coeff := cc\<rparr>"
  using assms
proof (induction rule: walk_coeffs.raw_induct[rotated 1, consumes 1])
  case (1 f bd i s s')
  show ?case
  proof (cases "i < length (con_coeff s)")
    case False
    with 1(2) have "s' = s" by simp
    then show ?thesis by (auto intro: exI[of _ "con_coeff s"])
  next
    case True
    with 1(2) have "f bd (Suc i) (bd (con_coeff s ! i) s) = Some s'" by simp
    from 1(1)[OF this 1(3)] obtain cc where s': "s' = (bd (con_coeff s ! i) s)\<lparr>con_coeff := cc\<rparr>"
      by blast
    from 1(3) obtain cc' where "bd (con_coeff s ! i) s = s\<lparr>con_coeff := cc'\<rparr>" by blast
    with s' show ?thesis by auto
  qed
qed

lemma walk_set_con_coeff_frame:
  assumes "walk_coeffs (\<lambda>me t. if p me then set_con_coeff (f me) (g me) (h me) False t else t) i s = Some s'"
  shows "\<exists>cc. s' = s\<lparr>con_coeff := cc\<rparr>"
proof (rule walk_coeffs_frame[OF assms])
  fix me :: "'a MatrixEntry" and t :: "'a LinearProgram"
  show "\<exists>cc. (if p me then set_con_coeff (f me) (g me) (h me) False t else t) = t\<lparr>con_coeff := cc\<rparr>"
    using set_con_coeff_frame[of "f me" "g me" "h me" False t]
    by (auto intro: exI[of _ "con_coeff t"])
qed

lemma shift_bound_frame:
  "\<exists>a b. shift_bound infty r d s = s\<lparr>con_lb := a, con_ub := b\<rparr> \<and>
         length a = length (con_lb s) \<and> length b = length (con_ub s)"
proof -
  have "s = s\<lparr>con_lb := con_lb s, con_ub := con_ub s\<rparr>" by simp
  moreover have "s\<lparr>con_lb := (con_lb s)[r := con_lb s ! r + d]\<rparr> =
        s\<lparr>con_lb := (con_lb s)[r := con_lb s ! r + d], con_ub := con_ub s\<rparr>" by simp
  moreover have "s\<lparr>con_ub := (con_ub s)[r := con_ub s ! r + d]\<rparr> =
        s\<lparr>con_lb := con_lb s, con_ub := (con_ub s)[r := con_ub s ! r + d]\<rparr>" by simp
  ultimately show ?thesis
    unfolding shift_bound_def
    by (metis length_list_update)
qed

lemma fold_shift_frame:
  "\<exists>a b. fold (\<lambda>me s. if p me then shift_bound infty (f me) (g me) s else s) mes s
            = s\<lparr>con_lb := a, con_ub := b\<rparr> \<and>
         length a = length (con_lb s) \<and> length b = length (con_ub s)"
proof (induction mes arbitrary: s)
  case Nil
  have "s = s\<lparr>con_lb := con_lb s, con_ub := con_ub s\<rparr>" by simp
  then show ?case by (metis fold_simps(1))
next
  case (Cons me mes)
  let ?t = "if p me then shift_bound infty (f me) (g me) s else s"
  have "\<exists>a b. ?t = s\<lparr>con_lb := a, con_ub := b\<rparr> \<and>
         length a = length (con_lb s) \<and> length b = length (con_ub s)"
  proof (cases "p me")
    case True
    then show ?thesis using shift_bound_frame[of infty "f me" "g me" s] by simp
  next
    case False
    have "s = s\<lparr>con_lb := con_lb s, con_ub := con_ub s\<rparr>" by simp
    with False show ?thesis by (metis (full_types))
  qed
  then obtain a b where t: "?t = s\<lparr>con_lb := a, con_ub := b\<rparr>"
    and la: "length a = length (con_lb s)" and lb: "length b = length (con_ub s)" by blast
  from Cons[of ?t] obtain a' b' where
    r: "fold (\<lambda>me s. if p me then shift_bound infty (f me) (g me) s else s) mes ?t
        = ?t\<lparr>con_lb := a', con_ub := b'\<rparr>"
    and la': "length a' = length (con_lb ?t)" and lb': "length b' = length (con_ub ?t)" by blast
  have "fold (\<lambda>me s. if p me then shift_bound infty (f me) (g me) s else s) (me # mes) s
        = s\<lparr>con_lb := a', con_ub := b'\<rparr>"
    using r by (simp add: t)
  moreover have "length a' = length (con_lb s)" "length b' = length (con_ub s)"
    using la' lb' la lb by (simp_all add: t)
  ultimately show ?case by blast
qed

lemma split_free_effect:
  assumes "split_free infty x s = Some s'"
  shows "var_transform s' = var_transform s @ [(int (n_var s), 1, 0)] \<and>
         n_var s' = Suc (n_var s) \<and>
         var_lb s' = var_lb s @ [0] \<and> var_ub s' = var_ub s @ [infty] \<and>
         maximize s' = maximize s \<and> con_lb s' = con_lb s \<and> con_ub s' = con_ub s \<and>
         n_con s' = n_con s \<and> length (obj_coeff s') = Suc (length (obj_coeff s))"
proof -
  let ?lp1 = "snd (make_var 0 infty s)"
  let ?lp2 = "?lp1\<lparr>var_transform := var_transform ?lp1 @ [(int (n_var s), 1, 0)]\<rparr>"
  let ?lp3 = "set_obj_coeff (n_var s) (- (obj_coeff ?lp2 ! x)) False ?lp2"
  from assms have "walk_coeffs (\<lambda>me t. if me_col me = x
       then set_con_coeff (me_row me) (n_var s) (- me_val me) False t else t) 0 ?lp3 = Some s'"
    by (simp add: split_free_def make_var_def Let_def)
  from walk_set_con_coeff_frame[OF this] obtain cc where "s' = ?lp3\<lparr>con_coeff := cc\<rparr>" by blast
  then show ?thesis by (simp add: make_var_def set_obj_coeff_def)
qed

lemma subst_upper_effect:
  "var_transform (subst_upper infty x ub s) = var_transform s @ [(- 1, - 1, ub)] \<and>
   n_var (subst_upper infty x ub s) = n_var s \<and>
   var_lb (subst_upper infty x ub s) = var_lb s \<and>
   var_ub (subst_upper infty x ub s) = var_ub s \<and>
   maximize (subst_upper infty x ub s) = maximize s \<and>
   length (con_lb (subst_upper infty x ub s)) = length (con_lb s) \<and>
   length (con_ub (subst_upper infty x ub s)) = length (con_ub s) \<and>
   n_con (subst_upper infty x ub s) = n_con s \<and>
   length (obj_coeff (subst_upper infty x ub s)) = length (obj_coeff s)"
proof -
  let ?lp1 = "s\<lparr>var_transform := var_transform s @ [(- 1, - 1, ub)]\<rparr>"
  let ?lp2 = "?lp1\<lparr>obj_coeff := (obj_coeff ?lp1)[x := obj_coeff ?lp1 ! x * - 1]\<rparr>"
  obtain a b where
    "fold (\<lambda>me s. if me_col me = x then shift_bound infty (me_row me) (me_val me * - ub) s else s)
       (con_coeff ?lp2) ?lp2 = ?lp2\<lparr>con_lb := a, con_ub := b\<rparr>"
    "length a = length (con_lb ?lp2)" "length b = length (con_ub ?lp2)"
    using fold_shift_frame[of "\<lambda>me. me_col me = x" infty me_row "\<lambda>me. me_val me * - ub"
        "con_coeff ?lp2" ?lp2] by blast
  then show ?thesis by (simp add: subst_upper_def Let_def)
qed

lemma shift_lower_effect:
  assumes "shift_lower infty x lb ub s = (r, s')"
  shows "var_transform s' = var_transform s @ [(- 1, 1, - lb)] \<and>
         n_var s' = n_var s \<and> var_lb s' = var_lb s \<and> var_ub s' = var_ub s \<and>
         maximize s' = maximize s \<and>
         (rows_ok s \<longrightarrow> rows_ok s') \<and> length (obj_coeff s') = length (obj_coeff s)"
proof -
  let ?lp1 = "s\<lparr>var_transform := var_transform s @ [(- 1, 1, - lb)]\<rparr>"
  obtain a b where f:
    "fold (\<lambda>me s. if me_col me = x then shift_bound infty (me_row me) (me_val me * lb) s else s)
       (con_coeff ?lp1) ?lp1 = ?lp1\<lparr>con_lb := a, con_ub := b\<rparr>"
    "length a = length (con_lb ?lp1)" "length b = length (con_ub ?lp1)"
    using fold_shift_frame[of "\<lambda>me. me_col me = x" infty me_row "\<lambda>me. me_val me * lb"
        "con_coeff ?lp1" ?lp1] by blast
  let ?lp2 = "?lp1\<lparr>con_lb := a, con_ub := b\<rparr>"
  show ?thesis
  proof (cases "ub = infty")
    case True
    with assms f have "s' = ?lp2" by (simp add: shift_lower_def Let_def)
    with f show ?thesis by (simp add: rows_ok_def)
  next
    case False
    note ub = this
    show ?thesis
    proof (cases "lb + ub = infty \<and> - infty = - (lb + ub)")
      case True
      then have "make_con infty (- infty) (lb + ub) ?lp2 = (Inl InvalidConstraint, ?lp2)"
        by (simp add: make_con_def)
      with assms f ub have "s' = ?lp2" by (simp add: shift_lower_def Let_def)
      with f show ?thesis by (simp add: rows_ok_def)
    next
      case False
      let ?lp3 = "?lp2\<lparr>con_lb := con_lb ?lp2 @ [- infty], con_ub := con_ub ?lp2 @ [lb + ub],
                        n_con := Suc (n_con ?lp2)\<rparr>"
      from False have "make_con infty (- infty) (lb + ub) ?lp2 = (Inr (n_con ?lp2), ?lp3)"
        by (simp add: make_con_def)
      with assms f ub have "s' = set_con_coeff (n_con ?lp2) x 1 False ?lp3"
        by (simp add: shift_lower_def Let_def)
      with set_con_coeff_frame[of "n_con ?lp2" x 1 False ?lp3] obtain cc
        where "s' = ?lp3\<lparr>con_coeff := cc\<rparr>" by auto
      with f show ?thesis by (simp add: rows_ok_def)
    qed
  qed
qed

lemma bound_step_effect:
  assumes "bound_step infty x s = Some (r, s')"
  shows "var_transform s' =
           var_transform s @ [transform_of infty (var_lb s ! x) (var_ub s ! x) (n_var s)] \<and>
         n_var s' = (if var_lb s ! x = - infty \<and> var_ub s ! x = infty then Suc (n_var s) else n_var s) \<and>
         var_lb s' = (var_lb s)[x := 0] @
            (if var_lb s ! x = - infty \<and> var_ub s ! x = infty then [0] else []) \<and>
         var_ub s' = (var_ub s)[x := infty] @
            (if var_lb s ! x = - infty \<and> var_ub s ! x = infty then [infty] else []) \<and>
         maximize s' = maximize s \<and> (rows_ok s \<longrightarrow> rows_ok s')"
proof -
  let ?lb = "var_lb s ! x" and ?ub = "var_ub s ! x"
  let ?lp1 = "s\<lparr>var_lb := (var_lb s)[x := 0], var_ub := (var_ub s)[x := infty]\<rparr>"
  consider (free) "?lb = - infty \<and> ?ub = infty"
    | (upper) "\<not> (?lb = - infty \<and> ?ub = infty)" "?lb = infty"
    | (lower) "\<not> (?lb = - infty \<and> ?ub = infty)" "?lb \<noteq> infty" by blast
  then show ?thesis
  proof cases
    case free
    then have "bound_step infty x s = map_option (Pair (Inr ())) (split_free infty x ?lp1)"
      unfolding bound_step_def Let_def by (rule if_P)
    with assms have "split_free infty x ?lp1 = Some s'" by auto
    from split_free_effect[OF this] free show ?thesis
      by (simp add: transform_of_def rows_ok_def)
  next
    case upper
    then have "bound_step infty x s = Some (Inr (), subst_upper infty x ?ub ?lp1)"
      unfolding bound_step_def Let_def by (simp only: if_P if_not_P if_True if_False simp_thms)
    with assms have "s' = subst_upper infty x ?ub ?lp1" by simp
    with subst_upper_effect[of infty x ?ub ?lp1] upper show ?thesis
      by (simp add: transform_of_def rows_ok_def)
  next
    case lower
    then have "bound_step infty x s = Some (shift_lower infty x ?lb ?ub ?lp1)"
      unfolding bound_step_def Let_def by (simp only: if_P if_not_P if_True if_False simp_thms)
    with assms have "shift_lower infty x ?lb ?ub ?lp1 = (r, s')" by simp
    from shift_lower_effect[OF this] lower show ?thesis
      by (simp add: transform_of_def rows_ok_def)
  qed
qed

lemma bounds_loop_effect:
  assumes "bounds_loop infty xs s = Some (r, s')" and "rows_ok s"
  shows "rows_ok s' \<and> maximize s' = maximize s \<and>
         (r = Inr () \<longrightarrow> length (var_transform s') = length (var_transform s) + length xs)"
  using assms
proof (induction xs arbitrary: s)
  case Nil
  then show ?case by simp
next
  case (Cons x xs)
  from Cons.prems(1) obtain r1 s1 where step: "bound_step infty x s = Some (r1, s1)"
    by (cases "bound_step infty x s") auto
  note eff = bound_step_effect[OF step]
  show ?case
  proof (cases r1)
    case (Inl e)
    with Cons.prems step have "s' = s1" "r = Inl e" by auto
    with eff Cons.prems(2) show ?thesis by simp
  next
    case (Inr u)
    with Cons.prems step have "bounds_loop infty xs s1 = Some (r, s')" by auto
    from Cons.IH[OF this] eff Cons.prems(2) show ?thesis by simp
  qed
qed

lemma split_loop_effect:
  assumes "split_loop infty c s = Some y"
    and "rows_ok s" and "\<forall>c'<c. one_sided infty s c'"
  shows "rows_ok (snd y) \<and> var_transform (snd y) = var_transform s \<and>
         maximize (snd y) = maximize s \<and> n_var (snd y) = n_var s \<and>
         (fst y = Inr () \<longrightarrow> (\<forall>c'<n_con (snd y). one_sided infty (snd y) c'))"
  using assms
proof (induction rule: split_loop.raw_induct[rotated 1, consumes 1])
  case (1 f infty c s y)
  note IH = 1(1) and eq = 1(2) and ok = 1(3) and os = 1(4)
  show ?case
  proof (cases "c < n_con s")
    case False
    with eq have "y = (Inr (), s)" by simp
    with ok os False show ?thesis by simp
  next
    case True
    note c = this
    let ?lb = "con_lb s ! c" and ?ub = "con_ub s ! c"
    show ?thesis
    proof (cases "?lb \<noteq> - infty \<and> ?ub \<noteq> infty \<and> ?lb \<noteq> ?ub")
      case False
      with eq c have call: "f infty (Suc c) s = Some y" by (simp add: Let_def)
      from False have "one_sided infty s c" by (auto simp: one_sided_def)
      with os have "\<forall>c'<Suc c. one_sided infty s c'" by (simp add: less_Suc_eq)
      from IH[OF call ok this] show ?thesis .
    next
      case True
      note fire = this
      let ?s0 = "s\<lparr>con_ub := (con_ub s)[c := infty]\<rparr>"
      let ?s1 = "?s0\<lparr>con_lb := con_lb ?s0 @ [- infty], con_ub := con_ub ?s0 @ [?ub],
                      n_con := Suc (n_con ?s0)\<rparr>"
      from fire have mk: "make_con infty (- infty) ?ub ?s0 = (Inr (n_con s), ?s1)"
        by (simp add: make_con_def)
      let ?w = "walk_coeffs (\<lambda>me t. if me_row me = c
                  then set_con_coeff (n_con s) (me_col me) (me_val me) False t else t) 0 ?s1"
      from eq c fire mk have eq2: "(case ?w of None \<Rightarrow> None | Some s2 \<Rightarrow> f infty (Suc c) s2) = Some y"
        by (simp add: Let_def)
      then obtain s2 where w: "?w = Some s2" and call: "f infty (Suc c) s2 = Some y"
        by (cases ?w) auto
      from walk_set_con_coeff_frame[OF w] obtain cc where s2: "s2 = ?s1\<lparr>con_coeff := cc\<rparr>"
        by blast
      from ok have ok2: "rows_ok s2" by (simp add: s2 rows_ok_def)
      have os2: "\<forall>c'<Suc c. one_sided infty s2 c'"
      proof (intro allI impI)
        fix c' assume "c' < Suc c"
        then consider "c' < c" | "c' = c" by linarith
        then show "one_sided infty s2 c'"
        proof cases
          case 1
          with os have "one_sided infty s c'" by simp
          with 1 c ok show ?thesis
            by (simp add: s2 one_sided_def rows_ok_def nth_append)
        next
          case 2
          with c ok show ?thesis
            by (simp add: s2 one_sided_def rows_ok_def nth_append)
        qed
      qed
      from IH[OF call ok2 os2] show ?thesis by (simp add: s2)
    qed
  qed
qed

lemma slack_step_effect:
  assumes "rows_ok t" and "c < n_con t" and "one_sided infty t c"
  shows "rows_ok (slack_step infty c t) \<and> n_con (slack_step infty c t) = n_con t \<and>
         var_transform (slack_step infty c t) = var_transform t \<and>
         maximize (slack_step infty c t) = maximize t \<and>
         con_lb (slack_step infty c t) ! c = con_ub (slack_step infty c t) ! c \<and>
         (\<forall>c'. c' \<noteq> c \<longrightarrow> con_lb (slack_step infty c t) ! c' = con_lb t ! c' \<and>
                            con_ub (slack_step infty c t) ! c' = con_ub t ! c')"
proof -
  let ?lb = "con_lb t ! c" and ?ub = "con_ub t ! c"
  consider (up) "?lb = - infty" | (lo) "?lb \<noteq> - infty" "?ub = infty"
    | (eq) "?lb \<noteq> - infty" "?ub \<noteq> infty" by blast
  then show ?thesis
  proof cases
    case up
    let ?t1 = "snd (make_var 0 infty (t\<lparr>con_lb := (con_lb t)[c := ?ub]\<rparr>))"
    from up have "slack_step infty c t = set_con_coeff c (n_var t) 1 False ?t1"
      by (simp add: slack_step_def Let_def make_var_def)
    with set_con_coeff_frame[of c "n_var t" 1 False ?t1] obtain cc
      where "slack_step infty c t = ?t1\<lparr>con_coeff := cc\<rparr>" by auto
    with assms show ?thesis by (simp add: make_var_def rows_ok_def)
  next
    case lo
    let ?t1 = "snd (make_var 0 infty (t\<lparr>con_ub := (con_ub t)[c := ?lb]\<rparr>))"
    from lo have "slack_step infty c t = set_con_coeff c (n_var t) (- 1) False ?t1"
      by (simp add: slack_step_def Let_def make_var_def)
    with set_con_coeff_frame[of c "n_var t" "- 1" False ?t1] obtain cc
      where "slack_step infty c t = ?t1\<lparr>con_coeff := cc\<rparr>" by auto
    with assms show ?thesis by (simp add: make_var_def rows_ok_def)
  next
    case eq
    then have "slack_step infty c t = t" by (simp add: slack_step_def Let_def)
    with eq assms show ?thesis by (simp add: one_sided_def)
  qed
qed

lemma slack_fold_effect:
  assumes "rows_ok s" and "\<forall>c<n_con s. one_sided infty s c" and "k \<le> n_con s"
  shows "rows_ok (fold (slack_step infty) [0..<k] s) \<and>
         n_con (fold (slack_step infty) [0..<k] s) = n_con s \<and>
         var_transform (fold (slack_step infty) [0..<k] s) = var_transform s \<and>
         maximize (fold (slack_step infty) [0..<k] s) = maximize s \<and>
         (\<forall>c<k. con_lb (fold (slack_step infty) [0..<k] s) ! c =
                  con_ub (fold (slack_step infty) [0..<k] s) ! c) \<and>
         (\<forall>c. k \<le> c \<longrightarrow> con_lb (fold (slack_step infty) [0..<k] s) ! c = con_lb s ! c \<and>
                          con_ub (fold (slack_step infty) [0..<k] s) ! c = con_ub s ! c)"
  using assms(3)
proof (induction k)
  case 0
  then show ?case using assms(1) by simp
next
  case (Suc k)
  let ?t = "fold (slack_step infty) [0..<k] s"
  from Suc have IH: "rows_ok ?t" "n_con ?t = n_con s" "var_transform ?t = var_transform s"
    "maximize ?t = maximize s" "\<forall>c<k. con_lb ?t ! c = con_ub ?t ! c"
    "\<forall>c. k \<le> c \<longrightarrow> con_lb ?t ! c = con_lb s ! c \<and> con_ub ?t ! c = con_ub s ! c"
    by simp_all
  from Suc.prems IH(2) have k: "k < n_con ?t" by simp
  from assms(2) Suc.prems IH(6) have "one_sided infty ?t k" by (simp add: one_sided_def)
  note eff = slack_step_effect[OF IH(1) k this]
  have fold: "fold (slack_step infty) [0..<Suc k] s = slack_step infty k ?t" by simp
  show ?case unfolding fold using eff IH by (auto simp: less_Suc_eq)
qed

lemma flip_step_effect:
  assumes "rows_ok t" and "c < n_con t" and "con_lb t ! c = con_ub t ! c"
  shows "rows_ok (flip_step c t) \<and> n_con (flip_step c t) = n_con t \<and>
         var_transform (flip_step c t) = var_transform t \<and>
         maximize (flip_step c t) = maximize t \<and>
         con_lb (flip_step c t) ! c = con_ub (flip_step c t) ! c \<and>
         0 \<le> con_ub (flip_step c t) ! c \<and>
         (\<forall>c'. c' \<noteq> c \<longrightarrow> con_lb (flip_step c t) ! c' = con_lb t ! c' \<and>
                            con_ub (flip_step c t) ! c' = con_ub t ! c')"
  using assms by (simp add: flip_step_def rows_ok_def)

lemma flip_fold_effect:
  assumes "rows_ok s" and "\<forall>c<n_con s. con_lb s ! c = con_ub s ! c" and "k \<le> n_con s"
  shows "rows_ok (fold flip_step [0..<k] s) \<and>
         n_con (fold flip_step [0..<k] s) = n_con s \<and>
         var_transform (fold flip_step [0..<k] s) = var_transform s \<and>
         maximize (fold flip_step [0..<k] s) = maximize s \<and>
         (\<forall>c<k. con_lb (fold flip_step [0..<k] s) ! c = con_ub (fold flip_step [0..<k] s) ! c \<and>
                 0 \<le> con_ub (fold flip_step [0..<k] s) ! c) \<and>
         (\<forall>c. k \<le> c \<longrightarrow> con_lb (fold flip_step [0..<k] s) ! c = con_lb s ! c \<and>
                          con_ub (fold flip_step [0..<k] s) ! c = con_ub s ! c)"
  using assms(3)
proof (induction k)
  case 0
  then show ?case using assms(1) by simp
next
  case (Suc k)
  let ?t = "fold flip_step [0..<k] s"
  from Suc have IH: "rows_ok ?t" "n_con ?t = n_con s" "var_transform ?t = var_transform s"
    "maximize ?t = maximize s"
    "\<forall>c<k. con_lb ?t ! c = con_ub ?t ! c \<and> 0 \<le> con_ub ?t ! c"
    "\<forall>c. k \<le> c \<longrightarrow> con_lb ?t ! c = con_lb s ! c \<and> con_ub ?t ! c = con_ub s ! c"
    by simp_all
  from Suc.prems IH(2) have k: "k < n_con ?t" by simp
  from assms(2) Suc.prems IH(6) have "con_lb ?t ! k = con_ub ?t ! k" by simp
  note eff = flip_step_effect[OF IH(1) k this]
  have fold: "fold flip_step [0..<Suc k] s = flip_step k ?t" by simp
  show ?case unfolding fold using eff IH by (auto simp: less_Suc_eq)
qed

text \<open>The four loops and the last step of \<open>to_canonical_form\<close>, put together.\<close>

lemma canonical_form_shape:
  assumes "wf_lp lp" and "to_canonical_form infty lp = Some (Inr (), lp')"
  shows "\<not> maximize lp' \<and>
         (\<forall>c<n_con lp'. con_lb lp' ! c = con_ub lp' ! c \<and> 0 \<le> con_lb lp' ! c) \<and>
         \<not> list_ex (\<lambda>i. less_than (con_lb lp' ! i) 0) [0..<n_con lp'] \<and>
         length (var_transform lp') = n_var lp"
proof -
  from assms(1) have ok: "rows_ok lp" by (simp add: wf_lp_def rows_ok_def)
  from assms(2) have vt: "var_transform lp = []"
    by (simp add: to_canonical_form_def Let_def split: if_splits)
  with assms(2) obtain lp1 where
    b: "bounds_loop infty [0..<n_var lp] lp = Some (Inr (), lp1)"
    by (auto simp: to_canonical_form_def Let_def split: option.splits sum.splits prod.splits)
  with assms(2) vt obtain lp2 where
    sp: "split_loop infty 0 lp1 = Some (Inr (), lp2)"
    by (auto simp: to_canonical_form_def Let_def split: option.splits sum.splits prod.splits)
  let ?lp3 = "fold (slack_step infty) [0..<n_con lp2] lp2"
  let ?lp4 = "fold flip_step [0..<n_con ?lp3] ?lp3"
  from assms(2) vt b sp have lp': "lp' = to_minimize ?lp4"
    by (simp add: to_canonical_form_def Let_def)
  from bounds_loop_effect[OF b ok] vt
  have 1: "rows_ok lp1" "length (var_transform lp1) = n_var lp" by simp_all
  from split_loop_effect[OF sp 1(1)]
  have 2: "rows_ok lp2" "var_transform lp2 = var_transform lp1"
    "\<forall>c<n_con lp2. one_sided infty lp2 c" by simp_all
  from slack_fold_effect[OF 2(1) 2(3), of "n_con lp2"]
  have 3: "rows_ok ?lp3" "n_con ?lp3 = n_con lp2" "var_transform ?lp3 = var_transform lp2"
    "\<forall>c<n_con ?lp3. con_lb ?lp3 ! c = con_ub ?lp3 ! c" by simp_all
  from flip_fold_effect[OF 3(1) 3(4), of "n_con ?lp3"]
  have 4: "n_con ?lp4 = n_con ?lp3" "var_transform ?lp4 = var_transform ?lp3"
    "\<forall>c<n_con ?lp4. con_lb ?lp4 ! c = con_ub ?lp4 ! c \<and> 0 \<le> con_ub ?lp4 ! c" by simp_all
  have 5: "\<not> maximize (to_minimize ?lp4)" "n_con (to_minimize ?lp4) = n_con ?lp4"
    "con_lb (to_minimize ?lp4) = con_lb ?lp4" "con_ub (to_minimize ?lp4) = con_ub ?lp4"
    "var_transform (to_minimize ?lp4) = var_transform ?lp4"
    by (simp_all add: to_minimize_def)
  have rhs: "\<forall>c<n_con (to_minimize ?lp4).
        con_lb (to_minimize ?lp4) ! c = con_ub (to_minimize ?lp4) ! c \<and>
        0 \<le> con_lb (to_minimize ?lp4) ! c"
    using 4 5 by simp
  then have nl: "\<not> list_ex (\<lambda>i. less_than (con_lb (to_minimize ?lp4) ! i) 0)
                 [0..<n_con (to_minimize ?lp4)]"
    by (auto simp: list_ex_iff less_than_def)
  have vt': "length (var_transform (to_minimize ?lp4)) = n_var lp"
    using 1(2) 2(2) 3(3) 4(2) 5(5) by simp
  show ?thesis unfolding lp' by (intro conjI 5(1) rhs nl vt')
qed

text \<open>
  C2. When \<open>to_canonical_form\<close> returns on a model that satisfies the class invariant,
  the model is minimising, every constraint has equal lower and upper bound, this
  common right-hand side is not negative (so the assertions at the head of \<open>simplex\<close>
  hold), and \<open>var_transform\<close> has one entry for every variable that the model had
  before the call.
\<close>

theorem canonical_form_result:
  assumes "wf_lp lp" and "to_canonical_form infty lp = Some (Inr (), lp')"
  shows "\<not> maximize lp' \<and>
         (\<forall>c<n_con lp'. con_lb lp' ! c = con_ub lp' ! c \<and> 0 \<le> con_lb lp' ! c) \<and>
         \<not> list_ex (\<lambda>i. less_than (con_lb lp' ! i) 0) [0..<n_con lp'] \<and>
         length (var_transform lp') = n_var lp"
  using assms by (rule canonical_form_shape)

theorem canonical_form_result_witness:
  "wf_lp mixed_lp \<and> to_canonical_form 1000 mixed_lp = Some (Inr (), mixed_canon) \<and>
   \<not> maximize mixed_canon \<and> n_con mixed_canon = 4 \<and>
   con_lb mixed_canon ! 0 = con_ub mixed_canon ! 0 \<and> 0 \<le> con_lb mixed_canon ! 0 \<and>
   con_lb mixed_canon ! 1 = con_ub mixed_canon ! 1 \<and> 0 \<le> con_lb mixed_canon ! 1 \<and>
   con_lb mixed_canon ! 2 = con_ub mixed_canon ! 2 \<and> 0 \<le> con_lb mixed_canon ! 2 \<and>
   con_lb mixed_canon ! 3 = con_ub mixed_canon ! 3 \<and> 0 \<le> con_lb mixed_canon ! 3 \<and>
   length (var_transform mixed_canon) = n_var mixed_lp"
proof -
  have wf: "wf_lp mixed_lp" by code_simp
  have run: "to_canonical_form 1000 mixed_lp = Some (Inr (), mixed_canon)" by code_simp
  have n: "n_con mixed_canon = 4" by code_simp
  from canonical_form_result[OF wf run]
  have mx: "\<not> maximize mixed_canon"
    and eq: "\<forall>c<n_con mixed_canon. con_lb mixed_canon ! c = con_ub mixed_canon ! c \<and>
                0 \<le> con_lb mixed_canon ! c"
    and len: "length (var_transform mixed_canon) = n_var mixed_lp"
    by blast+
  note row = eq[unfolded n, rule_format]
  from row[of 0] row[of 1] row[of 2] row[of 3] mx len wf run n show ?thesis by simp
qed

text \<open>The entry of \<open>var_transform\<close> for each variable, from its bounds before the call.\<close>

lemma bounds_loop_appends:
  assumes "bounds_loop infty xs s = Some (r, s')"
  shows "\<exists>rest. var_transform s' = var_transform s @ rest"
  using assms
proof (induction xs arbitrary: s)
  case Nil
  then show ?case by simp
next
  case (Cons x xs)
  from Cons.prems obtain r1 s1 where step: "bound_step infty x s = Some (r1, s1)"
    by (cases "bound_step infty x s") auto
  note eff = bound_step_effect[OF step]
  show ?case
  proof (cases r1)
    case (Inl e)
    with Cons.prems step have "s' = s1" by auto
    with eff show ?thesis by simp
  next
    case (Inr u)
    with Cons.prems step have "bounds_loop infty xs s1 = Some (r, s')" by auto
    from Cons.IH[OF this] eff show ?thesis by auto
  qed
qed

lemma bounds_loop_transforms:
  assumes "bounds_loop infty [k..<n] s = Some (Inr (), s')"
    and "n \<le> length (var_lb s)" and "length (var_ub s) = length (var_lb s)"
    and "k \<le> v" and "v < n"
  shows "var_transform s' ! (length (var_transform s) + (v - k)) =
           transform_of infty (var_lb s ! v) (var_ub s ! v)
             (n_var s + length (filter (\<lambda>u. var_lb s ! u = - infty \<and> var_ub s ! u = infty) [k..<v]))"
  using assms
proof (induction "n - k" arbitrary: k s)
  case 0
  then show ?case by simp
next
  case (Suc d)
  from Suc.hyps(2) have kn: "k < n" by simp
  then have upt: "[k..<n] = k # [Suc k..<n]" by (simp add: upt_conv_Cons)
  from Suc.prems(1) obtain r1 s1 where step: "bound_step infty k s = Some (r1, s1)"
    unfolding upt by (cases "bound_step infty k s") auto
  note eff = bound_step_effect[OF step]
  from Suc.prems(1) step have r1: "r1 = Inr ()" and rest: "bounds_loop infty [Suc k..<n] s1 = Some (Inr (), s')"
    unfolding upt by (cases r1; simp)+
  show ?case
  proof (cases "v = k")
    case True
    from bounds_loop_appends[OF rest] obtain rs where "var_transform s' = var_transform s1 @ rs"
      by blast
    with eff True show ?thesis by (simp add: nth_append)
  next
    case False
    with Suc.prems(4) have v: "Suc k \<le> v" by simp
    have len1: "n \<le> length (var_lb s1)" "length (var_ub s1) = length (var_lb s1)"
      using eff Suc.prems(2,3) by auto
    have d: "d = n - Suc k" using Suc.hyps(2) by simp
    have same: "\<And>u. Suc k \<le> u \<Longrightarrow> u < n \<Longrightarrow>
                var_lb s1 ! u = var_lb s ! u \<and> var_ub s1 ! u = var_ub s ! u"
      using eff Suc.prems(2,3) by (simp add: nth_append)
    have filt: "filter (\<lambda>u. var_lb s1 ! u = - infty \<and> var_ub s1 ! u = infty) [Suc k..<v] =
                filter (\<lambda>u. var_lb s ! u = - infty \<and> var_ub s ! u = infty) [Suc k..<v]"
      using same Suc.prems(5) by (intro filter_cong) auto
    have cnt: "length (filter (\<lambda>u. var_lb s ! u = - infty \<and> var_ub s ! u = infty) [k..<v]) =
               (if var_lb s ! k = - infty \<and> var_ub s ! k = infty then 1 else 0) +
               length (filter (\<lambda>u. var_lb s ! u = - infty \<and> var_ub s ! u = infty) [Suc k..<v])"
      using v by (simp add: upt_conv_Cons)
    from Suc.hyps(1)[OF d rest len1 v Suc.prems(5)]
    have "var_transform s' ! (length (var_transform s1) + (v - Suc k)) =
          transform_of infty (var_lb s1 ! v) (var_ub s1 ! v)
            (n_var s1 + length (filter (\<lambda>u. var_lb s1 ! u = - infty \<and> var_ub s1 ! u = infty) [Suc k..<v]))" .
    moreover have "length (var_transform s1) + (v - Suc k) = length (var_transform s) + (v - k)"
      using eff v by simp
    moreover have "n_var s1 + length (filter (\<lambda>u. var_lb s ! u = - infty \<and> var_ub s ! u = infty) [Suc k..<v])
       = n_var s + length (filter (\<lambda>u. var_lb s ! u = - infty \<and> var_ub s ! u = infty) [k..<v])"
      using eff cnt by simp
    ultimately show ?thesis using same[OF v Suc.prems(5)] filt by simp
  qed
qed

lemma to_canonical_form_transform:
  assumes "wf_lp lp" and "to_canonical_form infty lp = Some (Inr (), lp')" and "v < n_var lp"
  shows "var_transform lp' ! v =
           transform_of infty (var_lb lp ! v) (var_ub lp ! v) (n_var lp + free_before infty lp v)"
proof -
  from assms(1) have ok: "rows_ok lp" by (simp add: wf_lp_def rows_ok_def)
  from assms(2) have vt: "var_transform lp = []"
    by (simp add: to_canonical_form_def Let_def split: if_splits)
  with assms(2) obtain lp1 where
    b: "bounds_loop infty [0..<n_var lp] lp = Some (Inr (), lp1)"
    by (auto simp: to_canonical_form_def Let_def split: option.splits sum.splits prod.splits)
  with assms(2) vt obtain lp2 where
    sp: "split_loop infty 0 lp1 = Some (Inr (), lp2)"
    by (auto simp: to_canonical_form_def Let_def split: option.splits sum.splits prod.splits)
  let ?lp3 = "fold (slack_step infty) [0..<n_con lp2] lp2"
  let ?lp4 = "fold flip_step [0..<n_con ?lp3] ?lp3"
  from assms(2) vt b sp have lp': "lp' = to_minimize ?lp4"
    by (simp add: to_canonical_form_def Let_def)
  from bounds_loop_effect[OF b ok] have 1: "rows_ok lp1" by simp
  from split_loop_effect[OF sp 1]
  have 2: "rows_ok lp2" "var_transform lp2 = var_transform lp1"
    "\<forall>c<n_con lp2. one_sided infty lp2 c" by simp_all
  from slack_fold_effect[OF 2(1) 2(3), of "n_con lp2"]
  have 3: "rows_ok ?lp3" "var_transform ?lp3 = var_transform lp2"
    "\<forall>c<n_con ?lp3. con_lb ?lp3 ! c = con_ub ?lp3 ! c" by simp_all
  from flip_fold_effect[OF 3(1) 3(3), of "n_con ?lp3"]
  have 4: "var_transform ?lp4 = var_transform ?lp3" by simp
  have "var_transform lp' = var_transform lp1"
    unfolding lp' using 2(2) 3(2) 4 by (simp add: to_minimize_def)
  moreover from assms(1) have "n_var lp \<le> length (var_lb lp)" "length (var_ub lp) = length (var_lb lp)"
    by (simp_all add: wf_lp_def)
  from bounds_loop_transforms[OF b this _ assms(3)] vt
  have "var_transform lp1 ! v =
     transform_of infty (var_lb lp ! v) (var_ub lp ! v)
       (n_var lp + length (filter (\<lambda>u. var_lb lp ! u = - infty \<and> var_ub lp ! u = infty) [0..<v]))"
    by simp
  ultimately show ?thesis by (simp add: free_before_def is_free_def[abs_def])
qed

text \<open>
  C1, on the code. The branch of the substitution \<open>x* = ub - x\<close> is entered on
  \<open>lb == inf\<close>, so a variable without lower bound and with a finite upper bound goes
  to the third branch: its entry of \<open>var_transform\<close> is \<open>(-1, 1, -lb)\<close>, that is
  \<open>(-1, 1, inf)\<close>, and not the \<open>(-1, -1, ub)\<close> of the claim.
\<close>

theorem upper_bounded_only_not_substituted:
  assumes "wf_lp lp" and "to_canonical_form infty lp = Some (Inr (), lp')"
    and "v < n_var lp" and "var_lb lp ! v = - infty" and "var_ub lp ! v \<noteq> infty"
    and "infty \<noteq> 0"
  shows "var_transform lp' ! v = (- 1, 1, infty)"
  using to_canonical_form_transform[OF assms(1-3)] assms(4-6)
  by (simp add: transform_of_def)

theorem upper_bounded_only_not_substituted_witness:
  "wf_lp upper_only_lp \<and>
   to_canonical_form 1000 upper_only_lp = Some (Inr (), upper_only_canon) \<and>
   0 < n_var upper_only_lp \<and> var_lb upper_only_lp ! 0 = - 1000 \<and>
   var_ub upper_only_lp ! 0 \<noteq> 1000 \<and> (1000 :: rat) \<noteq> 0 \<and>
   var_transform upper_only_canon ! 0 = (- 1, 1, 1000) \<and>
   obj_coeff upper_only_canon = [1, 0, 0]"
proof -
  have wf: "wf_lp upper_only_lp" by code_simp
  have run: "to_canonical_form 1000 upper_only_lp = Some (Inr (), upper_only_canon)" by code_simp
  have v: "0 < n_var upper_only_lp" by code_simp
  have lb: "var_lb upper_only_lp ! 0 = - 1000" by code_simp
  have ub: "var_ub upper_only_lp ! 0 \<noteq> 1000" by code_simp
  have nz: "(1000 :: rat) \<noteq> 0" by simp
  have oc: "obj_coeff upper_only_canon = [1, 0, 0]" by code_simp
  from upper_bounded_only_not_substituted[OF wf run v lb ub nz] wf run v lb ub nz oc
  show ?thesis by blast
qed

section \<open>Mapping the solution back\<close>

lemma original_x_loop_nth:
  assumes "original_x_loop xs k ts = Inr res"
  shows "length res = length ts \<and>
         (\<forall>v<length ts. res ! v =
            xs ! (k + v) * fst (snd (ts ! v)) + snd (snd (ts ! v)) -
            (if 0 \<le> fst (ts ! v) then xs ! nat (fst (ts ! v)) else 0))"
  using assms
proof (induction ts arbitrary: k res)
  case Nil
  then show ?case by simp
next
  case (Cons t ts)
  obtain v2 coeff add where t: "t = (v2, coeff, add)" by (cases t) auto
  from Cons.prems obtain res' where
    r: "original_x_loop xs (Suc k) ts = Inr res'"
    and res: "res = (xs ! k * coeff + add - (if 0 \<le> v2 then xs ! nat v2 else 0)) # res'"
    unfolding t by (auto split: if_splits sum.splits)
  from Cons.IH[OF r] have IH: "length res' = length ts"
    "\<forall>v<length ts. res' ! v =
            xs ! (Suc k + v) * fst (snd (ts ! v)) + snd (snd (ts ! v)) -
            (if 0 \<le> fst (ts ! v) then xs ! nat (fst (ts ! v)) else 0)" by simp_all
  show ?case
  proof (intro conjI allI impI)
    show "length res = length (t # ts)" using IH(1) res by simp
  next
    fix v assume "v < length (t # ts)"
    then show "res ! v = xs ! (k + v) * fst (snd ((t # ts) ! v)) + snd (snd ((t # ts) ! v)) -
            (if 0 \<le> fst ((t # ts) ! v) then xs ! nat (fst ((t # ts) ! v)) else 0)"
      using IH(2) res t by (cases v) auto
  qed
qed

text \<open>
  C5. \<open>original_x\<close> returns, for every variable \<open>v\<close> with the entry \<open>(v2, coeff, add)\<close>
  of \<open>var_transform\<close>, the value \<open>x(v) * coeff + add\<close> minus \<open>x(v2)\<close> when \<open>v2\<close> is an
  index and minus nothing when it is \<open>-1\<close>. For a free variable \<open>v\<close> of a model with
  the class invariant, \<open>to_canonical_form\<close> records \<open>(x2, 1, 0)\<close>, where \<open>x2\<close> is the
  variable made for \<open>v\<close> (the old variable count plus the number of free variables
  below \<open>v\<close>), so the value mapped back is \<open>x(v) - x(x2)\<close>.
\<close>

theorem solution_mapping:
  "(original_x lp = Inr res \<longrightarrow>
      length res = length (var_transform lp) \<and>
      (\<forall>v<length (var_transform lp).
          res ! v = lp_x lp ! v * fst (snd (var_transform lp ! v)) + snd (snd (var_transform lp ! v))
                    - (if 0 \<le> fst (var_transform lp ! v)
                       then lp_x lp ! nat (fst (var_transform lp ! v)) else 0))) \<and>
   (wf_lp lp0 \<and> to_canonical_form infty lp0 = Some (Inr (), lp1) \<and>
    v < n_var lp0 \<and> is_free infty lp0 v \<longrightarrow>
      var_transform lp1 ! v = (int (n_var lp0 + free_before infty lp0 v), 1, 0) \<and>
      (\<forall>lp2 res2. var_transform lp2 = var_transform lp1 \<and> original_x lp2 = Inr res2 \<longrightarrow>
          res2 ! v = lp_x lp2 ! v - lp_x lp2 ! (n_var lp0 + free_before infty lp0 v)))"
proof (intro conjI impI)
  assume "original_x lp = Inr res"
  from original_x_loop_nth[OF this[unfolded original_x_def]]
  show "length res = length (var_transform lp)"
    and "\<forall>v<length (var_transform lp).
          res ! v = lp_x lp ! v * fst (snd (var_transform lp ! v)) + snd (snd (var_transform lp ! v))
                    - (if 0 \<le> fst (var_transform lp ! v)
                       then lp_x lp ! nat (fst (var_transform lp ! v)) else 0)"
    by simp_all
next
  assume a: "wf_lp lp0 \<and> to_canonical_form infty lp0 = Some (Inr (), lp1) \<and>
    v < n_var lp0 \<and> is_free infty lp0 v"
  then have tr: "var_transform lp1 ! v = (int (n_var lp0 + free_before infty lp0 v), 1, 0)"
    using to_canonical_form_transform[of lp0 infty lp1 v]
    by (simp add: transform_of_def is_free_def)
  then show "var_transform lp1 ! v = (int (n_var lp0 + free_before infty lp0 v), 1, 0)" .
  from a have len: "length (var_transform lp1) = n_var lp0"
    using canonical_form_shape[of lp0 infty lp1] by simp
  show "\<forall>lp2 res2. var_transform lp2 = var_transform lp1 \<and> original_x lp2 = Inr res2 \<longrightarrow>
          res2 ! v = lp_x lp2 ! v - lp_x lp2 ! (n_var lp0 + free_before infty lp0 v)"
  proof (intro allI impI)
    fix lp2 res2
    assume b: "var_transform lp2 = var_transform lp1 \<and> original_x lp2 = Inr res2"
    then have "original_x_loop (lp_x lp2) 0 (var_transform lp1) = Inr res2"
      by (auto simp: original_x_def)
    moreover have "nat (int (n_var lp0) + int (free_before infty lp0 v)) =
        n_var lp0 + free_before infty lp0 v" by simp
    ultimately show "res2 ! v = lp_x lp2 ! v - lp_x lp2 ! (n_var lp0 + free_before infty lp0 v)"
      using original_x_loop_nth[of "lp_x lp2" 0 "var_transform lp1" res2] a len tr
      by simp
  qed
qed

theorem solution_mapping_witness:
  "original_x (mixed_canon\<lparr>lp_x := [3, 1, 5, 0, 0, 0, 0]\<rparr>) = Inr [- 2, 0] \<and>
   wf_lp mixed_lp \<and> to_canonical_form 1000 mixed_lp = Some (Inr (), mixed_canon) \<and>
   0 < n_var mixed_lp \<and> is_free 1000 mixed_lp 0 \<and>
   var_transform mixed_canon ! 0 = (2, 1, 0) \<and>
   [- 2, 0 :: rat] ! 0 = lp_x (mixed_canon\<lparr>lp_x := [3, 1, 5, 0, 0, 0, 0]\<rparr>) ! 0
      - lp_x (mixed_canon\<lparr>lp_x := [3, 1, 5, 0, 0, 0, 0]\<rparr>) ! 2"
proof -
  let ?lp2 = "mixed_canon\<lparr>lp_x := [3, 1, 5, 0, 0, 0, 0]\<rparr>"
  have ox: "original_x ?lp2 = Inr [- 2, 0]" by code_simp
  have wf: "wf_lp mixed_lp" by code_simp
  have run: "to_canonical_form 1000 mixed_lp = Some (Inr (), mixed_canon)" by code_simp
  have v: "0 < n_var mixed_lp" by code_simp
  have fr: "is_free 1000 mixed_lp 0" by code_simp
  have fb: "n_var mixed_lp + free_before 1000 mixed_lp 0 = 2" by code_simp
  from solution_mapping[of ?lp2 "[- 2, 0]" mixed_lp 1000 mixed_canon 0] ox wf run v fr
  have "var_transform mixed_canon ! 0 = (int (n_var mixed_lp + free_before 1000 mixed_lp 0), 1, 0)"
    and "\<forall>lp2 res2. var_transform lp2 = var_transform mixed_canon \<and> original_x lp2 = Inr res2 \<longrightarrow>
          res2 ! 0 = lp_x lp2 ! 0 - lp_x lp2 ! (n_var mixed_lp + free_before 1000 mixed_lp 0)"
    by blast+
  then have "var_transform mixed_canon ! 0 = (2, 1, 0)"
    and "[- 2, 0 :: rat] ! 0 = lp_x ?lp2 ! 0 - lp_x ?lp2 ! 2"
    using ox fb by auto
  with ox wf run v fr show ?thesis by blast
qed

section \<open>The simplex loop\<close>

























text \<open>
  C4, on the code. At the end of phase 1 the costs of the basis are read by
  \<open>basic(i) > n ? eT(0) : c(basic(i))\<close>; the first artificial variable has the index
  \<open>n\<close>, so when it is still basic the code reads \<open>c(n)\<close>, one past the end of \<open>c\<close>.
  On the scenario of the test suite (which expects \<open>Optimal\<close>) \<open>solve\<close> therefore leaves
  by the exception of the checked access and reports no status.
\<close>

theorem phase_switch_reads_out_of_bounds:
  "solve_rat 1000 lower_bounded_lp = Some (Inl IndexOutOfBounds, lower_bounded_lp)"
  by code_simp

text \<open>When the loop ends, it ends with one of three statuses or with that exception.\<close>

lemma simplex_loop_status:
  assumes "simplex_loop n m c Adense s = Some y"
  shows "fst y \<in> {Inr Optimal, Inr Infeasible, Inr Unbounded, Inl IndexOutOfBounds}"
  using assms
proof (induction rule: simplex_loop.raw_induct[rotated 1, consumes 1])
  case (1 f n m c Adense s y)
  note IH = 1(1) and eq = 1(2)
  show ?case
  proof (cases "entering_of n m c Adense s")
    case None
    note ent = this
    show ?thesis
    proof (cases "phase_one s")
      case False
      with eq ent show ?thesis by auto
    next
      case True
      let ?s1 = "s\<lparr>phase_one := False\<rparr>"
      show ?thesis
      proof (cases "list_ex (\<lambda>j. less_than 0 (sx ?s1 ! j)) [n..<n + m]")
        case True
        with eq ent \<open>phase_one s\<close> show ?thesis by (auto simp: Let_def)
      next
        case False
        note pos = this
        show ?thesis
        proof (cases "phase2_costs n c (basic ?s1)")
          case (Inl e)
          moreover have "\<And>ks. phase2_costs n c ks = Inl e \<Longrightarrow> e = IndexOutOfBounds"
          proof -
            fix ks show "phase2_costs n c ks = Inl e \<Longrightarrow> e = IndexOutOfBounds"
              by (induction ks) (auto split: if_splits sum.splits simp: map_sum_def)
          qed
          ultimately have "e = IndexOutOfBounds" by blast
          with eq ent \<open>phase_one s\<close> pos Inl show ?thesis by (auto simp: Let_def)
        next
          case (Inr cB')
          with eq ent \<open>phase_one s\<close> pos have "f n m c Adense (?s1\<lparr>cB := cB'\<rparr>) = Some y"
            by (simp add: Let_def)
          from IH[OF this] show ?thesis .
        qed
      qed
    qed
  next
    case (Some entering)
    let ?d = "mat_vec (Binv s) (col Adense entering)"
    obtain lv mr where rt: "ratio_test (sx s) (basic s) ?d [0..<m] (None, 0) = (lv, mr)"
      by (cases "ratio_test (sx s) (basic s) ?d [0..<m] (None, 0)")
    show ?thesis
    proof (cases lv)
      case None
      with eq Some rt show ?thesis by (auto simp: Let_def)
    next
      case (Some leaving)
      with eq \<open>entering_of n m c Adense s = Some entering\<close> rt
      have "f n m c Adense (pivot m c entering leaving mr ?d s) = Some y"
        by (simp add: Let_def)
      from IH[OF this] show ?thesis .
    qed
  qed
qed

lemma simplex_effect:
  assumes "simplex lp = Some (Inr res, lp')"
  shows "(res \<longleftrightarrow> status lp' = Optimal) \<and> status lp' \<in> {Optimal, Infeasible, Unbounded}"
proof -
  let ?m = "n_con lp" and ?n = "n_var lp"
  from assms obtain Adense where A: "build_dense ?m ?n (con_coeff lp) (zeros ?m ?n) = Inr Adense"
    by (cases "build_dense ?m ?n (con_coeff lp) (zeros ?m ?n)") (auto simp: simplex_def Let_def)
  from assms A have na: "\<not> (maximize lp \<or> list_ex (\<lambda>i. less_than (con_lb lp ! i) 0) [0..<?m])"
    by (auto simp: simplex_def Let_def split: if_splits)
  let ?loop = "simplex_loop ?n ?m (obj_coeff lp) Adense (simplex_init ?n ?m (con_lb lp))"
  from assms A na obtain r s where l: "?loop = Some (r, s)"
    by (cases ?loop) (auto simp: simplex_def Let_def)
  from assms A na l obtain st where r: "r = Inr st"
    by (cases r) (auto simp: simplex_def Let_def)
  from assms A na l r have "res = (st = Optimal)" "status lp' = st"
    by (auto simp: simplex_def Let_def split: if_splits)
  moreover from simplex_loop_status[OF l] r have "st \<in> {Optimal, Infeasible, Unbounded}" by auto
  ultimately show ?thesis by simp
qed

section \<open>What a call of \<open>solve\<close> changes\<close>

lemma fold_set_con_coeff_x:
  "lp_x (fold (\<lambda>(i, j, v). set_con_coeff i j v False) es s) = lp_x s"
proof (induction es arbitrary: s)
  case Nil
  show ?case by simp
next
  case (Cons e es)
  obtain i j v where e: "e = (i, j, v)" by (cases e) auto
  have "lp_x (set_con_coeff i j v False s) = lp_x s" by (simp add: set_con_coeff_def)
  with Cons[of "set_con_coeff i j v False s"] e show ?case by simp
qed

lemma compat_build_matrix_frame:
  "lp_x (compat_build_matrix infty lp) = lp_x lp \<and>
   (n_var lp \<noteq> 0 \<longrightarrow> compat_build_matrix infty lp = lp)"
  by (simp add: compat_build_matrix_def Let_def fold_set_con_coeff_x)

lemma glpk_effect:
  assumes "glpk infty be lp = (res, lp')"
  shows "(res \<longleftrightarrow> status lp' = Optimal) \<and>
         (\<not> res \<longrightarrow> lp_x lp' = lp_x lp) \<and> n_var lp' = n_var lp"
  using assms
  by (auto simp: glpk_def Let_def split: if_splits prod.splits)

lemma solve_rat_cases:
  assumes "solve_rat infty this = Some (Inr res, this')"
  shows "\<exists>lp1 lp2. to_canonical_form infty (compat_build_matrix infty this) = Some (Inr (), lp1) \<and>
           simplex lp1 = Some (Inr res, lp2) \<and>
           (res \<longrightarrow> (\<exists>ox. original_x lp2 = Inr ox \<and>
                this' = (compat_build_matrix infty this)
                          \<lparr>status := status lp2, lp_x := ox, n_var := n_var this\<rparr>)) \<and>
           (\<not> res \<longrightarrow> this' = (compat_build_matrix infty this)
                          \<lparr>status := status lp2, n_var := n_var this\<rparr>)"
proof -
  let ?this1 = "compat_build_matrix infty this"
  from assms have cs: "check_sizes this = Inr ()"
    by (cases "check_sizes this") (simp_all add: solve_rat_def)
  have me: "lp_method ?this1 = SimplexPrimal"
  proof (rule ccontr)
    assume "lp_method ?this1 \<noteq> SimplexPrimal"
    with assms cs show False by (simp add: solve_rat_def Let_def)
  qed
  from assms cs me obtain r1 lp1 where c: "to_canonical_form infty ?this1 = Some (r1, lp1)"
    by (cases "to_canonical_form infty ?this1") (auto simp: solve_rat_def Let_def)
  from assms cs me c have r1: "r1 = Inr ()"
    by (cases r1) (simp_all add: solve_rat_def Let_def)
  from assms cs me c r1 obtain r2 lp2 where sm: "simplex lp1 = Some (r2, lp2)"
    by (cases "simplex lp1") (auto simp: solve_rat_def Let_def)
  from assms cs me c r1 sm obtain res2 where r2: "r2 = Inr res2"
    by (cases r2) (simp_all add: solve_rat_def Let_def)
  from assms cs me c r1 sm r2 have
    fin: "(if res2
           then (case original_x lp2 of
                   Inl e \<Rightarrow> Some (Inl e, ?this1\<lparr>status := status lp2\<rparr>)
                 | Inr ox \<Rightarrow> Some (Inr res2, ?this1\<lparr>status := status lp2, lp_x := ox, n_var := n_var this\<rparr>))
           else Some (Inr res2, ?this1\<lparr>status := status lp2, n_var := n_var this\<rparr>))
          = Some (Inr res, this')"
    by (simp add: solve_rat_def Let_def)
  have res: "res2 = res"
  proof (cases res2)
    case True
    with fin show ?thesis by (cases "original_x lp2") simp_all
  next
    case False
    with fin show ?thesis by simp
  qed
  have "res \<longrightarrow> (\<exists>ox. original_x lp2 = Inr ox \<and>
                this' = ?this1\<lparr>status := status lp2, lp_x := ox, n_var := n_var this\<rparr>)"
    using fin res by (cases "original_x lp2") auto
  moreover have "\<not> res \<longrightarrow> this' = ?this1\<lparr>status := status lp2, n_var := n_var this\<rparr>"
    using fin res by auto
  ultimately show ?thesis using c r1 sm r2 res by blast
qed

text \<open>
  C9, as the code has it. \<open>canonical_form\<close> leaves its receiver as it was. A call of
  \<open>solve\<close> that returns leaves \<open>n_var\<close> at its value before the call. For \<open>rat\<close>,
  \<open>solve\<close> runs the canonical form and the simplex on a copy; the receiver after the
  call is the receiver after \<open>compat_build_matrix\<close>, with \<open>n_var\<close> restored, the status
  set and, on success, \<open>x\<close> set. \<open>compat_build_matrix\<close> changes nothing when the model
  has variables made by \<open>make_var\<close>; for a model given by matrices only it rebuilds the
  cost, coefficient and bound vectors and \<open>n_con\<close> on the receiver itself, and they
  stay rebuilt.
\<close>

theorem solve_frame:
  fixes this :: "'a::{zero,uminus,plus} LinearProgram"
    and lp :: "'b::linordered_field LinearProgram"
  shows "snd (canonical_form is_rat dflt st0 lp) = lp \<and>
         (solve infty be this = (Inr res, this') \<longrightarrow> n_var this' = n_var this) \<and>
         (solve_rat rinfty rthis = Some (Inr rres, rthis') \<longrightarrow>
            n_var rthis' = n_var rthis \<and>
            (rres \<longrightarrow> (\<exists>xs. rthis' = (compat_build_matrix rinfty rthis)
                                 \<lparr>status := Optimal, lp_x := xs, n_var := n_var rthis\<rparr>)) \<and>
            (\<not> rres \<longrightarrow> (\<exists>st. rthis' = (compat_build_matrix rinfty rthis)
                                 \<lparr>status := st, n_var := n_var rthis\<rparr>)) \<and>
            (n_var rthis \<noteq> 0 \<longrightarrow> compat_build_matrix rinfty rthis = rthis))"
proof (intro conjI impI)
  show "snd (canonical_form is_rat dflt st0 lp) = lp"
    by (simp add: canonical_form_def Let_def split: prod.splits)
next
  assume a: "solve infty be this = (Inr res, this')"
  let ?this1 = "compat_build_matrix infty this"
  obtain r this2 where g: "glpk infty be ?this1 = (r, this2)" by (cases "glpk infty be ?this1")
  from a g have "this' = this2\<lparr>n_var := n_var this\<rparr>"
    by (auto simp: solve_def Let_def split: sum.splits)
  then show "n_var this' = n_var this" by simp
next
  assume a: "solve_rat rinfty rthis = Some (Inr rres, rthis')"
  let ?this1 = "compat_build_matrix rinfty rthis"
  from solve_rat_cases[OF a] obtain lp1 lp2 where
    sm: "simplex lp1 = Some (Inr rres, lp2)"
    and t: "rres \<longrightarrow> (\<exists>ox. original_x lp2 = Inr ox \<and>
                rthis' = ?this1\<lparr>status := status lp2, lp_x := ox, n_var := n_var rthis\<rparr>)"
    and f: "\<not> rres \<longrightarrow> rthis' = ?this1\<lparr>status := status lp2, n_var := n_var rthis\<rparr>"
    by blast
  note se = simplex_effect[OF sm]
  from t f show "n_var rthis' = n_var rthis" by (cases rres) auto
  show "\<exists>xs. rthis' = ?this1\<lparr>status := Optimal, lp_x := xs, n_var := n_var rthis\<rparr>" if rres
    using t se that by auto
  show "\<exists>st. rthis' = ?this1\<lparr>status := st, n_var := n_var rthis\<rparr>" if "\<not> rres"
    using f that by auto
  show "compat_build_matrix rinfty rthis = rthis" if "n_var rthis \<noteq> 0"
    using that compat_build_matrix_frame[of rinfty rthis] by simp
qed

theorem solve_frame_witness:
  "snd (canonical_form True the_defaults Error unbounded_dense_lp) = unbounded_dense_lp \<and>
   solve 1000 optimal_backend mixed_lp = (Inr True, mixed_lp\<lparr>status := Optimal, lp_x := [7, 7]\<rparr>) \<and>
   n_var (mixed_lp\<lparr>status := Optimal, lp_x := [7, 7]\<rparr>) = n_var mixed_lp \<and>
   solve_rat 1000 small_lp = Some (Inr True, small_lp\<lparr>status := Optimal, lp_x := [2]\<rparr>) \<and>
   n_var small_lp \<noteq> 0 \<and> compat_build_matrix 1000 small_lp = small_lp"
proof -
  have 1: "solve 1000 optimal_backend mixed_lp = (Inr True, mixed_lp\<lparr>status := Optimal, lp_x := [7, 7]\<rparr>)"
    by code_simp
  have 2: "solve_rat 1000 small_lp = Some (Inr True, small_lp\<lparr>status := Optimal, lp_x := [2]\<rparr>)"
    by code_simp
  have 3: "n_var small_lp \<noteq> 0" by code_simp
  from solve_frame[of True the_defaults Error unbounded_dense_lp 1000 optimal_backend mixed_lp True
      "mixed_lp\<lparr>status := Optimal, lp_x := [7, 7]\<rparr>" 1000 small_lp True
      "small_lp\<lparr>status := Optimal, lp_x := [2]\<rparr>"] 1 2 3
  show ?thesis by simp
qed

text \<open>
  Against C9 as stated: for a model given by matrices only, \<open>solve\<close> for \<open>rat\<close> changes
  more of the receiver than the status and \<open>x\<close>. Here it returns false and leaves one
  constraint, its bounds and its coefficient where there were none.
\<close>

theorem solve_rebuilds_receiver_counterexample:
  "solve_rat 1000 unbounded_dense_lp =
     Some (Inr False,
           unbounded_dense_lp\<lparr>status := Unbounded, obj_coeff := [- 1],
              con_coeff := [\<lparr>me_row = 0, me_col = 0, me_val = 1\<rparr>], var_lb := [0],
              var_ub := [1000], con_lb := [2], con_ub := [1000], n_con := 1\<rparr>) \<and>
   n_con unbounded_dense_lp = 0 \<and> con_lb unbounded_dense_lp = [] \<and>
   con_coeff unbounded_dense_lp = []"
  by code_simp

text \<open>
  C10. On both paths, a call of \<open>solve\<close> that returns false leaves the solution vector
  \<open>x\<close> as it was before the call.
\<close>

theorem failed_solve_keeps_solution:
  fixes this :: "'a::{zero,uminus,plus} LinearProgram"
  shows "(solve infty be this = (Inr False, this') \<longrightarrow> lp_x this' = lp_x this) \<and>
         (solve_rat rinfty rthis = Some (Inr False, rthis') \<longrightarrow> lp_x rthis' = lp_x rthis)"
proof (intro conjI impI)
  assume a: "solve infty be this = (Inr False, this')"
  let ?this1 = "compat_build_matrix infty this"
  obtain res this2 where g: "glpk infty be ?this1 = (res, this2)" by (cases "glpk infty be ?this1")
  from a g have "res = False" "this' = this2\<lparr>n_var := n_var this\<rparr>"
    by (auto simp: solve_def Let_def split: sum.splits)
  with glpk_effect[OF g] have "lp_x this' = lp_x ?this1" by simp
  with compat_build_matrix_frame[of infty this] show "lp_x this' = lp_x this" by simp
next
  assume a: "solve_rat rinfty rthis = Some (Inr False, rthis')"
  let ?this1 = "compat_build_matrix rinfty rthis"
  from solve_rat_cases[OF a] have "\<exists>st. rthis' = ?this1\<lparr>status := st, n_var := n_var rthis\<rparr>"
    by auto
  with compat_build_matrix_frame[of rinfty rthis] show "lp_x rthis' = lp_x rthis" by auto
qed

theorem failed_solve_keeps_solution_witness:
  "solve 1000 nofeas_backend (mixed_lp\<lparr>lp_x := [1, 2]\<rparr>) =
     (Inr False, mixed_lp\<lparr>lp_x := [1, 2], status := Infeasible\<rparr>) \<and>
   lp_x (mixed_lp\<lparr>lp_x := [1, 2], status := Infeasible\<rparr>) = lp_x (mixed_lp\<lparr>lp_x := [1, 2]\<rparr>) \<and>
   fst (the (solve_rat 1000 (unbounded_dense_lp\<lparr>lp_x := [1]\<rparr>))) = Inr False \<and>
   lp_x (snd (the (solve_rat 1000 (unbounded_dense_lp\<lparr>lp_x := [1]\<rparr>)))) =
     lp_x (unbounded_dense_lp\<lparr>lp_x := [1]\<rparr>)"
proof -
  let ?a = "mixed_lp\<lparr>lp_x := [1, 2]\<rparr>" and ?b = "unbounded_dense_lp\<lparr>lp_x := [1]\<rparr>"
  have 1: "solve 1000 nofeas_backend ?a = (Inr False, mixed_lp\<lparr>lp_x := [1, 2], status := Infeasible\<rparr>)"
    by code_simp
  have 2: "solve_rat 1000 ?b = Some (Inr False, snd (the (solve_rat 1000 ?b)))"
    by code_simp
  have 3: "fst (the (solve_rat 1000 ?b)) = Inr False" by code_simp
  from failed_solve_keeps_solution[of 1000 nofeas_backend ?a
      "mixed_lp\<lparr>lp_x := [1, 2], status := Infeasible\<rparr>" 1000 ?b "snd (the (solve_rat 1000 ?b))"] 1 2 3
  show ?thesis by simp
qed

end
